theory Spec2Isabelle
  imports Complex_Main
begin

section \<open>Python values\<close>

text \<open>
  The values that \<^verbatim>\<open>json.loads\<close> produces and that the code inspects with
  \<^verbatim>\<open>isinstance\<close>. Text is a \<^typ>\<open>string\<close> holding the UTF-8 bytes of the Python
  \<^verbatim>\<open>str\<close>; a dictionary is an association list in insertion order, read with
  \<^const>\<open>map_of\<close> (first binding). A float is kept as the JSON literal it was read
  from. Two things that Python computes are taken as a parameter, \<open>py_ops\<close>: what it
  computes from a float (truth value, \<^verbatim>\<open>str\<close>, numeric value), which is
  floating-point arithmetic, and what \<^verbatim>\<open>str.upper\<close>, \<^verbatim>\<open>str.lower\<close>,
  \<^verbatim>\<open>str.title\<close> and \<^verbatim>\<open>repr\<close> give for a text that is not all ASCII, which is
  read from the Unicode character tables. On ASCII text these four are defined below.
\<close>

datatype pyval =
    PNone
  | PBool bool
  | PInt int
  | PFloat string
  | PStr string
  | PList "pyval list"
  | PDict "(string \<times> pyval) list"

type_synonym pydict = "(string \<times> pyval) list"

record py_ops =
  float_bool :: "string \<Rightarrow> bool"
  float_str :: "string \<Rightarrow> string"
  float_val :: "string \<Rightarrow> rat"
  text_upper :: "string \<Rightarrow> string"
  text_lower :: "string \<Rightarrow> string"
  text_title :: "string \<Rightarrow> string"
  text_repr :: "string \<Rightarrow> string"

definition is_ascii :: "string \<Rightarrow> bool" where
  "is_ascii s = list_all (\<lambda>c. (of_char c :: nat) < 128) s"

text \<open>The characters of a text, each with its UTF-8 bytes, and the slice \<^verbatim>\<open>s[:n]\<close>.\<close>

definition utf8_width :: "char \<Rightarrow> nat" where
  "utf8_width c =
     (let n = (of_char c :: nat) in
      if n < 0x80 then 1 else if n < 0xE0 then 2 else if n < 0xF0 then 3 else 4)"

fun py_chars :: "string \<Rightarrow> string list" where
  "py_chars [] = []"
| "py_chars (c # cs) =
     (c # take (utf8_width c - 1) cs) # py_chars (drop (utf8_width c - 1) cs)"

definition take_chars :: "nat \<Rightarrow> string \<Rightarrow> string" where
  "take_chars n s = concat (take n (py_chars s))"

datatype py_error =
    HTTPStatusError string
  | TimeoutException
  | TransportError
  | ValueError string
  | KeyError
  | IndexError
  | TypeError
  | AttributeError
  | RuntimeError nat "py_error option"

fun is_list :: "pyval \<Rightarrow> bool" where
  "is_list (PList xs) = True"
| "is_list v = False"

fun is_dict :: "pyval \<Rightarrow> bool" where
  "is_dict (PDict kv) = True"
| "is_dict v = False"

fun is_str :: "pyval \<Rightarrow> bool" where
  "is_str (PStr s) = True"
| "is_str v = False"

text \<open>\<^verbatim>\<open>d.get(key, default)\<close> and \<^verbatim>\<open>d[key] = v\<close>.\<close>

definition dict_get :: "pydict \<Rightarrow> string \<Rightarrow> pyval \<Rightarrow> pyval" where
  "dict_get d key dflt = (case map_of d key of None \<Rightarrow> dflt | Some v \<Rightarrow> v)"

fun dict_set :: "pydict \<Rightarrow> string \<Rightarrow> pyval \<Rightarrow> pydict" where
  "dict_set [] key v = [(key, v)]"
| "dict_set ((k, w) # d) key v =
     (if k = key then (k, v) # d else (k, w) # dict_set d key v)"

subsection \<open>Truth value and \<^verbatim>\<open>str\<close>\<close>

fun py_truthy :: "py_ops \<Rightarrow> pyval \<Rightarrow> bool" where
  "py_truthy fp PNone = False"
| "py_truthy fp (PBool b) = b"
| "py_truthy fp (PInt i) = (i \<noteq> 0)"
| "py_truthy fp (PFloat l) = float_bool fp l"
| "py_truthy fp (PStr s) = (s \<noteq> [])"
| "py_truthy fp (PList xs) = (xs \<noteq> [])"
| "py_truthy fp (PDict kv) = (kv \<noteq> [])"

definition digit_char :: "nat \<Rightarrow> char" where
  "digit_char n = char_of (48 + n)"

fun show_nat :: "nat \<Rightarrow> string" where
  "show_nat n = (if n < 10 then [digit_char n] else show_nat (n div 10) @ [digit_char (n mod 10)])"

declare show_nat.simps [simp del]

definition show_int :: "int \<Rightarrow> string" where
  "show_int i = (if i < 0 then CHR ''-'' # show_nat (nat (- i)) else show_nat (nat i))"

definition hex_char :: "nat \<Rightarrow> char" where
  "hex_char n = (if n < 10 then char_of (48 + n) else char_of (87 + n))"

text \<open>
  \<^verbatim>\<open>repr\<close> of an ASCII string: single quotes unless the text has a single quote and no
  double quote; backslash, the quote, and control characters are escaped.
\<close>

definition repr_quote :: "string \<Rightarrow> char" where
  \<open>repr_quote s = (if CHR 0x27 \<in> set s \<and> CHR ''"'' \<notin> set s then CHR ''"'' else CHR 0x27)\<close>

definition repr_char :: "char \<Rightarrow> char \<Rightarrow> string" where
  "repr_char q c =
     (if c = CHR 0x5C then [CHR 0x5C, CHR 0x5C]
      else if c = q then [CHR 0x5C, q]
      else if c = CHR 0x0A then [CHR 0x5C, CHR ''n'']
      else if c = CHR 0x0D then [CHR 0x5C, CHR ''r'']
      else if c = CHR 0x09 then [CHR 0x5C, CHR ''t'']
      else if (of_char c :: nat) < 32 \<or> c = CHR 0x7F
        then [CHR 0x5C, CHR ''x'', hex_char (of_char c div 16), hex_char (of_char c mod 16)]
      else [c])"

definition repr_str :: "py_ops \<Rightarrow> string \<Rightarrow> string" where
  "repr_str fp s =
     (if is_ascii s then (let q = repr_quote s in q # concat (map (repr_char q) s) @ [q])
      else text_repr fp s)"

fun join :: "string \<Rightarrow> string list \<Rightarrow> string" where
  "join sep [] = []"
| "join sep [x] = x"
| "join sep (x # y # ys) = x @ sep @ join sep (y # ys)"

fun py_repr :: "py_ops \<Rightarrow> pyval \<Rightarrow> string" where
  "py_repr fp PNone = ''None''"
| "py_repr fp (PBool b) = (if b then ''True'' else ''False'')"
| "py_repr fp (PInt i) = show_int i"
| "py_repr fp (PFloat l) = float_str fp l"
| "py_repr fp (PStr s) = repr_str fp s"
| "py_repr fp (PList xs) = ''['' @ join '', '' (map (py_repr fp) xs) @ '']''"
| "py_repr fp (PDict kv) =
     ''{'' @ join '', '' (map (\<lambda>e. repr_str fp (fst e) @ '': '' @ py_repr fp (snd e)) kv) @ ''}''"

definition py_str :: "py_ops \<Rightarrow> pyval \<Rightarrow> string" where
  "py_str fp v = (case v of PStr s \<Rightarrow> s | _ \<Rightarrow> py_repr fp v)"

subsection \<open>\<^verbatim>\<open>str.title\<close>, \<^verbatim>\<open>str.upper\<close>, \<^verbatim>\<open>str.lower\<close>, \<^verbatim>\<open>str.strip\<close>\<close>

text \<open>
  On ASCII text the case mappings act on the letters a to z and A to Z. A text that is not
  all ASCII is mapped by the parameter.
\<close>

definition is_lower :: "char \<Rightarrow> bool" where
  "is_lower c = (let n = (of_char c :: nat) in 97 \<le> n \<and> n \<le> 122)"

definition is_upper :: "char \<Rightarrow> bool" where
  "is_upper c = (let n = (of_char c :: nat) in 65 \<le> n \<and> n \<le> 90)"

definition to_upper :: "char \<Rightarrow> char" where
  "to_upper c = (if is_lower c then char_of (of_char c - (32::nat)) else c)"

definition to_lower :: "char \<Rightarrow> char" where
  "to_lower c = (if is_upper c then char_of (of_char c + (32::nat)) else c)"

definition upper :: "py_ops \<Rightarrow> string \<Rightarrow> string" where
  "upper fp s = (if is_ascii s then map to_upper s else text_upper fp s)"

definition lower :: "py_ops \<Rightarrow> string \<Rightarrow> string" where
  "lower fp s = (if is_ascii s then map to_lower s else text_lower fp s)"

fun title_from :: "bool \<Rightarrow> string \<Rightarrow> string" where
  "title_from prev [] = []"
| "title_from prev (c # cs) =
     (if is_lower c then (if prev then c else to_upper c) # title_from True cs
      else if is_upper c then (if prev then to_lower c else c) # title_from True cs
      else c # title_from False cs)"

definition title :: "py_ops \<Rightarrow> string \<Rightarrow> string" where
  "title fp s = (if is_ascii s then title_from False s else text_title fp s)"

text \<open>
  White space is what \<^verbatim>\<open>str.isspace\<close>, \<^verbatim>\<open>str.strip\<close> and the pattern
  \<^verbatim>\<open>\s\<close> take for it, as the UTF-8 bytes of each character: U+0009 to U+000D,
  U+001C to U+0020, U+0085, U+00A0, U+1680, U+2000 to U+200A, U+2028, U+2029, U+202F,
  U+205F and U+3000.
\<close>

definition space_seq :: "string \<Rightarrow> bool" where
  "space_seq s =
     (case map of_char s :: nat list of
        [a] \<Rightarrow> (0x09 \<le> a \<and> a \<le> 0x0D) \<or> (0x1C \<le> a \<and> a \<le> 0x20)
      | [a, b] \<Rightarrow> a = 0xC2 \<and> (b = 0x85 \<or> b = 0xA0)
      | [a, b, c] \<Rightarrow>
          (a = 0xE1 \<and> b = 0x9A \<and> c = 0x80)
          \<or> (a = 0xE2 \<and> b = 0x80
               \<and> ((0x80 \<le> c \<and> c \<le> 0x8A) \<or> c = 0xA8 \<or> c = 0xA9 \<or> c = 0xAF))
          \<or> (a = 0xE2 \<and> b = 0x81 \<and> c = 0x9F)
          \<or> (a = 0xE3 \<and> b = 0x80 \<and> c = 0x80)
      | _ \<Rightarrow> False)"

text \<open>
  The number of bytes of the white-space character a text starts with, 0 when it starts
  with none; \<open>backwards\<close> reads a reversed text, to look at the end of a string.
\<close>

definition space_width :: "bool \<Rightarrow> string \<Rightarrow> nat" where
  "space_width backwards s =
     (let f = (if backwards then rev else id) in
      if space_seq (f (take 1 s)) then 1
      else if space_seq (f (take 2 s)) then 2
      else if space_seq (f (take 3 s)) then 3
      else 0)"

text \<open>The number of bytes of the longest run of white space at the start.\<close>

fun space_len :: "bool \<Rightarrow> string \<Rightarrow> nat" where
  "space_len backwards [] = 0"
| "space_len backwards (c # cs) =
     (let n = space_width backwards (c # cs) in
      if n = 0 then 0 else n + space_len backwards (drop (n - 1) cs))"

definition space_run :: "string \<Rightarrow> string" where
  "space_run s = take (space_len False s) s"

definition lstrip :: "string \<Rightarrow> string" where
  "lstrip s = drop (space_len False s) s"

definition rstrip :: "string \<Rightarrow> string" where
  "rstrip s = rev (drop (space_len True (rev s)) (rev s))"

definition strip :: "string \<Rightarrow> string" where
  "strip s = rstrip (lstrip s)"

section \<open>Schema normalisation (\<^verbatim>\<open>_validate_and_normalise\<close>)\<close>

definition defaults :: "py_ops \<Rightarrow> string \<Rightarrow> pydict" where
  "defaults fp username =
     [(''name'', PStr (if username \<noteq> [] then title fp username else ''Unknown'')),
      (''role'', PStr []),
      (''tagline'', PStr []),
      (''bio'', PStr []),
      (''skills'', PList []),
      (''projects'', PList []),
      (''experience'', PList []),
      (''education'', PList []),
      (''achievements'', PList []),
      (''contact'', PDict [])]"

text \<open>\<^verbatim>\<open>str(type(v))\<close>.\<close>

definition type_repr :: "pyval \<Rightarrow> string" where
  "type_repr v =
     ''<class '' @ [CHR 0x27]
       @ (case v of
            PNone \<Rightarrow> ''NoneType''
          | PBool b \<Rightarrow> ''bool''
          | PInt i \<Rightarrow> ''int''
          | PFloat l \<Rightarrow> ''float''
          | PStr s \<Rightarrow> ''str''
          | PList xs \<Rightarrow> ''list''
          | PDict kv \<Rightarrow> ''dict'')
       @ [CHR 0x27] @ ''>''"

text \<open>The three type coercions of the loop body, in the source's order.\<close>

definition coerce :: "py_ops \<Rightarrow> pyval \<Rightarrow> pyval \<Rightarrow> pyval" where
  "coerce fp dflt val0 =
     (let val1 = (if is_list dflt \<and> \<not> is_list val0 then dflt else val0);
          val2 = (if is_dict dflt \<and> \<not> is_dict val1 then dflt else val1);
          val3 = (if is_str dflt \<and> \<not> is_str val2
                  then (if py_truthy fp val2 then PStr (py_str fp val2) else dflt)
                  else val2)
      in val3)"

definition validate_and_normalise :: "py_ops \<Rightarrow> pyval \<Rightarrow> string \<Rightarrow> py_error + pydict" where
  "validate_and_normalise fp data username =
     (case data of
        PDict d \<Rightarrow>
          Inr (map (\<lambda>(key, dflt). (key, coerce fp dflt (dict_get d key dflt))) (defaults fp username))
      | _ \<Rightarrow> Inl (ValueError (''LLM returned non-dict JSON: '' @ type_repr data)))"

section \<open>\<^verbatim>\<open>json.loads\<close>\<close>

datatype raw = RPunct char | RStr string | RWord string

datatype smode = Top | InStr bool string | InWord string

definition json_ws :: "char \<Rightarrow> bool" where
  "json_ws c = (c = CHR '' '' \<or> c = CHR 0x09 \<or> c = CHR 0x0A \<or> c = CHR 0x0D)"

definition is_punct :: "char \<Rightarrow> bool" where
  "is_punct c = (c \<in> set ''{}[]:,'')"

definition is_digit :: "char \<Rightarrow> bool" where
  "is_digit c = (let n = (of_char c :: nat) in 48 \<le> n \<and> n \<le> 57)"

definition word_char :: "char \<Rightarrow> bool" where
  "word_char c = (is_lower c \<or> is_upper c \<or> is_digit c \<or> c = CHR ''-'' \<or> c = CHR ''+'' \<or> c = CHR ''.'')"

definition is_ctrl :: "char \<Rightarrow> bool" where
  "is_ctrl c = ((of_char c :: nat) < 32)"

definition top_step :: "char \<Rightarrow> (raw list \<times> smode) option" where
  \<open>top_step c =
     (if json_ws c then Some ([], Top)
      else if is_punct c then Some ([RPunct c], Top)
      else if c = CHR ''"'' then Some ([], InStr False [])
      else if word_char c then Some ([], InWord [c])
      else None)\<close>

definition step :: "smode \<Rightarrow> char \<Rightarrow> (raw list \<times> smode) option" where
  \<open>step m c =
     (case m of
        Top \<Rightarrow> top_step c
      | InStr esc b \<Rightarrow>
          (if is_ctrl c then None
           else if esc then Some ([], InStr False (c # b))
           else if c = CHR ''"'' then Some ([RStr (rev b)], Top)
           else Some ([], InStr (c = CHR 0x5C) (c # b)))
      | InWord w \<Rightarrow>
          (if word_char c then Some ([], InWord (c # w))
           else (case top_step c of
                   None \<Rightarrow> None
                 | Some (out, m') \<Rightarrow> Some (RWord (rev w) # out, m'))))\<close>

fun scan :: "smode \<Rightarrow> string \<Rightarrow> raw list option" where
  "scan m [] = (case m of Top \<Rightarrow> Some [] | InWord w \<Rightarrow> Some [RWord (rev w)] | InStr esc b \<Rightarrow> None)"
| "scan m (c # cs) =
     (case step m c of
        None \<Rightarrow> None
      | Some (out, m') \<Rightarrow> map_option (append out) (scan m' cs))"

definition hex_val :: "char \<Rightarrow> nat option" where
  "hex_val c =
     (let n = (of_char c :: nat) in
      if 48 \<le> n \<and> n \<le> 57 then Some (n - 48)
      else if 97 \<le> n \<and> n \<le> 102 then Some (n - 87)
      else if 65 \<le> n \<and> n \<le> 70 then Some (n - 55)
      else None)"

definition hex4 :: "string \<Rightarrow> nat option" where
  "hex4 s =
     (case map hex_val s of
        [Some a, Some b, Some c, Some d] \<Rightarrow> Some (((a * 16 + b) * 16 + c) * 16 + d)
      | _ \<Rightarrow> None)"

definition utf8 :: "nat \<Rightarrow> string" where
  "utf8 n =
     (if n < 0x80 then [char_of n]
      else if n < 0x800 then [char_of (0xC0 + n div 64), char_of (0x80 + n mod 64)]
      else if n < 0x10000 then
        [char_of (0xE0 + n div 4096), char_of (0x80 + (n div 64) mod 64), char_of (0x80 + n mod 64)]
      else
        [char_of (0xF0 + n div 262144), char_of (0x80 + (n div 4096) mod 64),
         char_of (0x80 + (n div 64) mod 64), char_of (0x80 + n mod 64)])"

definition simple_escape :: "char \<Rightarrow> char option" where
  \<open>simple_escape e =
     (if e = CHR ''"'' then Some (CHR ''"'')
      else if e = CHR 0x5C then Some (CHR 0x5C)
      else if e = CHR ''/'' then Some (CHR ''/'')
      else if e = CHR ''b'' then Some (CHR 0x08)
      else if e = CHR ''f'' then Some (CHR 0x0C)
      else if e = CHR ''n'' then Some (CHR 0x0A)
      else if e = CHR ''r'' then Some (CHR 0x0D)
      else if e = CHR ''t'' then Some (CHR 0x09)
      else None)\<close>

definition low_surrogate :: "nat \<Rightarrow> string \<Rightarrow> nat option" where
  "low_surrogate hi r =
     (if 0xD800 \<le> hi \<and> hi < 0xDC00 \<and> take 2 r = [CHR 0x5C, CHR ''u'']
      then (case hex4 (take 4 (drop 2 r)) of
              Some lo \<Rightarrow> if 0xDC00 \<le> lo \<and> lo < 0xE000 then Some lo else None
            | None \<Rightarrow> None)
      else None)"

fun decode_body :: "string \<Rightarrow> string option" where
  "decode_body [] = Some []"
| "decode_body (c # cs) =
     (if c \<noteq> CHR 0x5C then map_option (Cons c) (decode_body cs)
      else (case cs of
              [] \<Rightarrow> None
            | e # r \<Rightarrow>
                if e = CHR ''u'' then
                  (case hex4 (take 4 r) of
                     None \<Rightarrow> None
                   | Some hi \<Rightarrow>
                       (case low_surrogate hi (drop 4 r) of
                          Some lo \<Rightarrow>
                            map_option (append (utf8 (0x10000 + (hi - 0xD800) * 1024 + (lo - 0xDC00))))
                              (decode_body (drop 10 r))
                        | None \<Rightarrow> map_option (append (utf8 hi)) (decode_body (drop 4 r))))
                else (case simple_escape e of
                        None \<Rightarrow> None
                      | Some x \<Rightarrow> map_option (Cons x) (decode_body r))))"

definition valid_exp :: "string \<Rightarrow> bool" where
  "valid_exp r =
     (case r of
        [] \<Rightarrow> True
      | c # r' \<Rightarrow>
          (c = CHR ''e'' \<or> c = CHR ''E'') \<and>
          (let ds = (case r' of
                       [] \<Rightarrow> []
                     | s # t \<Rightarrow> if s = CHR ''+'' \<or> s = CHR ''-'' then t else r')
           in ds \<noteq> [] \<and> list_all is_digit ds))"

definition valid_frac :: "string \<Rightarrow> bool" where
  "valid_frac r =
     (case r of
        [] \<Rightarrow> True
      | c # r' \<Rightarrow>
          if c = CHR ''.'' then takeWhile is_digit r' \<noteq> [] \<and> valid_exp (dropWhile is_digit r')
          else valid_exp r)"

definition unsigned :: "string \<Rightarrow> string" where
  "unsigned w = (case w of [] \<Rightarrow> [] | c # r \<Rightarrow> if c = CHR ''-'' then r else w)"

definition valid_number :: "string \<Rightarrow> bool" where
  "valid_number w =
     (let ip = takeWhile is_digit (unsigned w) in
      ip \<noteq> [] \<and> (hd ip \<noteq> CHR ''0'' \<or> length ip = 1) \<and> valid_frac (dropWhile is_digit (unsigned w)))"

definition digits_value :: "string \<Rightarrow> int" where
  "digits_value ds = foldl (\<lambda>a c. 10 * a + int (of_char c - 48)) 0 ds"

definition word_value :: "string \<Rightarrow> pyval option" where
  "word_value w =
     (if w = ''null'' then Some PNone
      else if w = ''true'' then Some (PBool True)
      else if w = ''false'' then Some (PBool False)
      else if w = ''NaN'' \<or> w = ''Infinity'' \<or> w = ''-Infinity'' then Some (PFloat w)
      else if valid_number w then
        Some (if list_all is_digit (unsigned w)
              then PInt (if w = unsigned w then digits_value w else - digits_value (unsigned w))
              else PFloat w)
      else None)"

datatype token = TPunct char | TVal pyval

definition classify :: "raw \<Rightarrow> token option" where
  "classify r =
     (case r of
        RPunct c \<Rightarrow> Some (TPunct c)
      | RStr b \<Rightarrow> map_option (\<lambda>s. TVal (PStr s)) (decode_body b)
      | RWord w \<Rightarrow> map_option TVal (word_value w))"

datatype frame = FArr "pyval list" | FObj pydict "string option"

datatype pstate = ExpectValue | ExpectValueOrEnd | ExpectKeyOrEnd | ExpectKey | ExpectColon
  | AfterValue | Done pyval

fun deliver :: "pyval \<Rightarrow> frame list \<Rightarrow> (frame list \<times> pstate) option" where
  "deliver v [] = Some ([], Done v)"
| "deliver v (FArr xs # st) = Some (FArr (xs @ [v]) # st, AfterValue)"
| "deliver v (FObj d (Some k) # st) = Some (FObj (dict_set d k v) None # st, AfterValue)"
| "deliver v (FObj d None # st) = None"

fun close_frame :: "char \<Rightarrow> frame list \<Rightarrow> (frame list \<times> pstate) option" where
  "close_frame c (FArr xs # st) = (if c = CHR '']'' then deliver (PList xs) st else None)"
| "close_frame c (FObj d None # st) = (if c = CHR ''}'' then deliver (PDict d) st else None)"
| "close_frame c st = None"

fun after_comma :: "frame list \<Rightarrow> (frame list \<times> pstate) option" where
  "after_comma (FArr xs # st) = Some (FArr xs # st, ExpectValue)"
| "after_comma (FObj d None # st) = Some (FObj d None # st, ExpectKey)"
| "after_comma st = None"

fun take_key :: "token \<Rightarrow> frame list \<Rightarrow> (frame list \<times> pstate) option" where
  "take_key (TVal (PStr k)) (FObj d None # st) = Some (FObj d (Some k) # st, ExpectColon)"
| "take_key t st = None"

fun take_value :: "token \<Rightarrow> frame list \<Rightarrow> (frame list \<times> pstate) option" where
  "take_value (TVal v) st = deliver v st"
| "take_value (TPunct c) st =
     (if c = CHR ''['' then Some (FArr [] # st, ExpectValueOrEnd)
      else if c = CHR ''{'' then Some (FObj [] None # st, ExpectKeyOrEnd)
      else None)"

fun parse_step :: "frame list \<Rightarrow> pstate \<Rightarrow> token \<Rightarrow> (frame list \<times> pstate) option" where
  "parse_step st ExpectValue t = take_value t st"
| "parse_step st ExpectValueOrEnd t =
     (if t = TPunct (CHR '']'') then close_frame (CHR '']'') st else take_value t st)"
| "parse_step st ExpectKeyOrEnd t =
     (if t = TPunct (CHR ''}'') then close_frame (CHR ''}'') st else take_key t st)"
| "parse_step st ExpectKey t = take_key t st"
| "parse_step st ExpectColon t = (if t = TPunct (CHR '':'') then Some (st, ExpectValue) else None)"
| "parse_step st AfterValue t =
     (if t = TPunct (CHR '','') then after_comma st
      else if t = TPunct (CHR '']'') then close_frame (CHR '']'') st
      else if t = TPunct (CHR ''}'') then close_frame (CHR ''}'') st
      else None)"
| "parse_step st (Done v) t = None"

fun parse_tokens :: "frame list \<Rightarrow> pstate \<Rightarrow> token list \<Rightarrow> pyval option" where
  "parse_tokens st ps [] = (case ps of Done v \<Rightarrow> Some v | _ \<Rightarrow> None)"
| "parse_tokens st ps (t # ts) =
     (case parse_step st ps t of
        None \<Rightarrow> None
      | Some (st', ps') \<Rightarrow> parse_tokens st' ps' ts)"

definition json_loads :: "string \<Rightarrow> pyval option" where
  "json_loads s =
     (case scan Top s of
        None \<Rightarrow> None
      | Some raws \<Rightarrow>
          (case those (map classify raws) of
             None \<Rightarrow> None
           | Some toks \<Rightarrow> parse_tokens [] ExpectValue toks))"


section \<open>Response normaliser (\<^verbatim>\<open>_fix_json_string\<close>)\<close>

function sub_fence_open :: "bool \<Rightarrow> string \<Rightarrow> string" where
  "sub_fence_open bol [] = []"
| "sub_fence_open bol (c # cs) =
     (if bol \<and> take 3 (c # cs) = ''```'' then
        (let r = (if take 4 (drop 2 cs) = ''json'' then drop 6 cs else drop 2 cs);
             w = space_run r
         in sub_fence_open (w \<noteq> [] \<and> last w = CHR 0x0A) (lstrip r))
      else c # sub_fence_open (c = CHR 0x0A) cs)"
  by pat_completeness auto
termination
  by (relation "measure (\<lambda>(bol, s). length s)") (auto simp add: lstrip_def)

definition fence_tail :: "string \<Rightarrow> string option" where
  "fence_tail s =
     (if take 3 s = ''```'' then
        (let w = space_run (drop 3 s); rest = lstrip (drop 3 s) in
         if rest = [] then Some []
         else if CHR 0x0A \<in> set w
           then Some (CHR 0x0A # rev (takeWhile (\<lambda>c. c \<noteq> CHR 0x0A) (rev w)) @ rest)
         else None)
      else None)"

definition close_match :: "string \<Rightarrow> string option" where
  "close_match s =
     (case s of
        [] \<Rightarrow> None
      | c # cs \<Rightarrow>
          if c = CHR 0x0A then (case fence_tail cs of Some r \<Rightarrow> Some r | None \<Rightarrow> fence_tail s)
          else fence_tail s)"

function sub_fence_close :: "string \<Rightarrow> string" where
  "sub_fence_close [] = []"
| "sub_fence_close (c # cs) =
     (case close_match (c # cs) of
        Some rest \<Rightarrow> sub_fence_close rest
      | None \<Rightarrow> c # sub_fence_close cs)"
  by pat_completeness auto
termination
proof (relation "measure length")
  fix c :: char and cs rest :: string
  assume m: "close_match (c # cs) = Some rest"
  have tail: "length r < length s" if "fence_tail s = Some r" for s r
  proof -
    from that have t3: "take 3 s = ''```''"
      by (auto simp: fence_tail_def split: if_splits)
    have l3: "3 \<le> length s"
    proof (rule ccontr)
      assume "\<not> 3 \<le> length s"
      then have "length (take 3 s) < 3" by simp
      with t3 show False by simp
    qed
    define d where "d = drop 3 s"
    define w where "w = space_run d"
    define rest where "rest = lstrip d"
    have ld: "length d + 3 = length s" using l3 by (simp add: d_def)
    have "w @ rest = d"
      unfolding w_def rest_def by (simp add: space_run_def lstrip_def)
    then have "length (w @ rest) = length d" by simp
    then have split: "length w + length rest = length d" by simp
    have lw: "length (takeWhile (\<lambda>c. c \<noteq> CHR 0x0A) (rev w)) \<le> length w"
      using length_takeWhile_le[of "\<lambda>c. c \<noteq> CHR 0x0A" "rev w"] by simp
    from that have "r = [] \<or> r = CHR 0x0A # rev (takeWhile (\<lambda>c. c \<noteq> CHR 0x0A) (rev w)) @ rest"
      unfolding fence_tail_def Let_def d_def[symmetric] w_def[symmetric] rest_def[symmetric]
      by (auto split: if_splits)
    then show ?thesis
    proof
      assume "r = []" then show ?thesis using l3 by auto
    next
      assume "r = CHR 0x0A # rev (takeWhile (\<lambda>c. c \<noteq> CHR 0x0A) (rev w)) @ rest"
      then have "length r = 1 + length (takeWhile (\<lambda>c. c \<noteq> CHR 0x0A) (rev w)) + length rest" by simp
      then show ?thesis using lw split ld by simp
    qed
  qed
  have "length rest < length (c # cs)"
  proof (cases "c = CHR 0x0A")
    case True
    show ?thesis
    proof (cases "fence_tail cs")
      case None
      with m True have "fence_tail (c # cs) = Some rest" by (simp add: close_match_def)
      then show ?thesis by (rule tail)
    next
      case (Some r)
      with m True have "r = rest" by (simp add: close_match_def)
      with Some have "length rest < length cs" using tail by blast
      then show ?thesis by simp
    qed
  next
    case False
    with m have "fence_tail (c # cs) = Some rest" by (simp add: close_match_def)
    then show ?thesis by (rule tail)
  qed
  then show "(rest, c # cs) \<in> measure length" by simp
qed auto

function strip_trailing_commas :: "string \<Rightarrow> string" where
  "strip_trailing_commas [] = []"
| "strip_trailing_commas (c # cs) =
     (let r = lstrip cs in
      if c = CHR '','' \<and> r \<noteq> [] \<and> (hd r = CHR ''}'' \<or> hd r = CHR '']'')
      then hd r # strip_trailing_commas (tl r)
      else c # strip_trailing_commas cs)"
  by pat_completeness auto
termination
proof (relation "measure length")
  fix c :: char and cs r :: string
  assume "r = lstrip cs"
  then have "length r \<le> length cs" by (simp add: lstrip_def)
  then show "(tl r, c # cs) \<in> measure length" by simp
qed auto

definition brace_block :: "string \<Rightarrow> string option" where
  "brace_block s =
     (let t = dropWhile (\<lambda>c. c \<noteq> CHR ''{'') s;
          u = rev (dropWhile (\<lambda>c. c \<noteq> CHR ''}'') (rev t))
      in if 3 \<le> length u then Some u else None)"

definition loads_block :: "string \<Rightarrow> pyval option" where
  "loads_block s = (case brace_block s of None \<Rightarrow> None | Some candidate \<Rightarrow> json_loads candidate)"

definition unfence :: "string \<Rightarrow> string" where
  "unfence text = strip (sub_fence_close (sub_fence_open True (strip text)))"

definition fix_json_string :: "string \<Rightarrow> py_error + pyval" where
  "fix_json_string text0 =
     (let text = unfence text0 in
      case json_loads text of
        Some v \<Rightarrow> Inr v
      | None \<Rightarrow>
          (case loads_block text of
             Some v \<Rightarrow> Inr v
           | None \<Rightarrow>
               (let cleaned = strip_trailing_commas text in
                case json_loads cleaned of
                  Some v \<Rightarrow> Inr v
                | None \<Rightarrow>
                    (case loads_block cleaned of
                       Some v \<Rightarrow> Inr v
                     | None \<Rightarrow>
                         Inl (ValueError
                           (''Cannot extract valid JSON from LLM response. Raw (first 300 chars): ''
                            @ take_chars 300 text))))))"

section \<open>HTTP calls and Python subscripts\<close>

text \<open>
  The network is a parameter: a function from the request to what the HTTP client does
  with it. \<open>Timeout\<close> is \<^verbatim>\<open>httpx.TimeoutException\<close>, \<open>NetworkError\<close> any other
  transport failure (connection refused, DNS), \<open>Response\<close> a status code and a body.
\<close>

datatype http_outcome = Timeout | NetworkError | Response int string

definition and_then :: "'e + 'a \<Rightarrow> ('a \<Rightarrow> 'e + 'b) \<Rightarrow> 'e + 'b" where
  "and_then r f = (case r of Inl e \<Rightarrow> Inl e | Inr x \<Rightarrow> f x)"

text \<open>\<^verbatim>\<open>v[key]\<close> for a string key, and \<^verbatim>\<open>v[0]\<close>.\<close>

definition getitem_key :: "pyval \<Rightarrow> string \<Rightarrow> py_error + pyval" where
  "getitem_key v key =
     (case v of
        PDict d \<Rightarrow> (case map_of d key of None \<Rightarrow> Inl KeyError | Some x \<Rightarrow> Inr x)
      | _ \<Rightarrow> Inl TypeError)"

definition getitem_0 :: "pyval \<Rightarrow> py_error + pyval" where
  "getitem_0 v =
     (case v of
        PList xs \<Rightarrow> (case xs of [] \<Rightarrow> Inl IndexError | x # _ \<Rightarrow> Inr x)
      | PStr s \<Rightarrow> (case s of [] \<Rightarrow> Inl IndexError | c # _ \<Rightarrow> Inr (PStr (take (utf8_width c) s)))
      | PDict d \<Rightarrow> Inl KeyError
      | _ \<Rightarrow> Inl TypeError)"

section \<open>Model caller (\<^verbatim>\<open>_call_llm\<close>)\<close>

record llm_request =
  rq_model :: string
  rq_api_key :: string
  rq_prompt :: string

text \<open>
  After the subscripts the source takes \<^verbatim>\<open>len(content)\<close> and \<^verbatim>\<open>content[:500]\<close>
  for its log lines: both succeed on a string and on a list; \<^verbatim>\<open>len\<close> raises
  \<^verbatim>\<open>TypeError\<close> on \<^verbatim>\<open>None\<close> and numbers, and the slice of a dictionary raises
  (\<^verbatim>\<open>TypeError\<close> up to Python 3.11).
\<close>

definition call_llm ::
  "(llm_request \<Rightarrow> http_outcome) \<Rightarrow> string \<Rightarrow> string \<Rightarrow> string \<Rightarrow> py_error + pyval" where
  "call_llm post model api_key prompt =
     (case post \<lparr>rq_model = model, rq_api_key = api_key, rq_prompt = prompt\<rparr> of
        Timeout \<Rightarrow> Inl TimeoutException
      | NetworkError \<Rightarrow> Inl TransportError
      | Response status body \<Rightarrow>
          if status = 429 then Inl (HTTPStatusError ''Rate limited (429)'')
          else if status \<noteq> 200 then
            Inl (HTTPStatusError (''API error '' @ show_int status @ '': '' @ take_chars 300 body))
          else
            (case json_loads body of
               None \<Rightarrow> Inl (ValueError ''response body is not JSON'')
             | Some data \<Rightarrow>
                 and_then (getitem_key data ''choices'') (\<lambda>choices.
                 and_then (getitem_0 choices) (\<lambda>choice.
                 and_then (getitem_key choice ''message'') (\<lambda>message.
                 and_then (getitem_key message ''content'') (\<lambda>content.
                   case content of
                     PStr s \<Rightarrow> Inr content
                   | PList xs \<Rightarrow> Inr content
                   | _ \<Rightarrow> Inl TypeError))))))"

section \<open>Fallback orchestrator (\<^verbatim>\<open>generate_portfolio_data\<close>)\<close>

definition FALLBACK_MODELS :: "string list" where
  "FALLBACK_MODELS =
     [''google/gemma-3-12b-it:free'',
      ''google/gemma-3-4b-it:free'',
      ''meta-llama/llama-3.3-70b-instruct:free'',
      ''meta-llama/llama-3.2-3b-instruct:free'',
      ''mistralai/mistral-small-3.1-24b-instruct:free'',
      ''deepseek/deepseek-r1-0528:free'',
      ''qwen/qwen3-4b:free'']"

text \<open>\<^verbatim>\<open>model or DEFAULT_LLM_MODEL\<close>: \<^verbatim>\<open>None\<close> and the empty string give the default.\<close>

definition models_to_try :: "string \<Rightarrow> string option \<Rightarrow> string list" where
  "models_to_try default_model model =
     (let preferred = (case model of None \<Rightarrow> default_model
                       | Some m \<Rightarrow> if m = [] then default_model else m)
      in preferred # filter (\<lambda>m. m \<noteq> preferred) FALLBACK_MODELS)"

text \<open>\<^verbatim>\<open>_fix_json_string\<close> starts with \<^verbatim>\<open>text.strip()\<close>, which only a string has.\<close>

definition parse_content :: "pyval \<Rightarrow> py_error + pyval" where
  "parse_content raw_content =
     (case raw_content of PStr s \<Rightarrow> fix_json_string s | _ \<Rightarrow> Inl AttributeError)"

text \<open>The body of the \<^verbatim>\<open>try\<close> block, for one model.\<close>

definition attempt ::
  "py_ops \<Rightarrow> (llm_request \<Rightarrow> http_outcome) \<Rightarrow> string \<Rightarrow> string \<Rightarrow> string \<Rightarrow> string
     \<Rightarrow> py_error + pydict" where
  "attempt fp post api_key prompt username attempt_model =
     and_then (call_llm post attempt_model api_key prompt) (\<lambda>raw_content.
     and_then (parse_content raw_content) (\<lambda>parsed.
       validate_and_normalise fp parsed username))"

text \<open>The two \<^verbatim>\<open>except\<close> clauses.\<close>

fun is_http_or_timeout :: "py_error \<Rightarrow> bool" where
  "is_http_or_timeout (HTTPStatusError m) = True"
| "is_http_or_timeout TimeoutException = True"
| "is_http_or_timeout e = False"

fun is_value_or_key :: "py_error \<Rightarrow> bool" where
  "is_value_or_key (ValueError m) = True"
| "is_value_or_key KeyError = True"
| "is_value_or_key e = False"

text \<open>The failures that the loop catches and answers by trying the next model.\<close>

definition caught :: "py_error \<Rightarrow> bool" where
  "caught e = (is_http_or_timeout e \<or> is_value_or_key e)"

text \<open>What a run does, in order: a call to a model, or the one-second sleep.\<close>

datatype event = Call string | Sleep

fun try_models ::
  "py_ops \<Rightarrow> (llm_request \<Rightarrow> http_outcome) \<Rightarrow> string \<Rightarrow> string \<Rightarrow> string \<Rightarrow> nat
     \<Rightarrow> py_error option \<Rightarrow> string list \<Rightarrow> (py_error + pydict) \<times> event list" where
  "try_models fp post api_key prompt username n last_error [] =
     (Inl (RuntimeError n last_error), [])"
| "try_models fp post api_key prompt username n last_error (m # ms) =
     (case attempt fp post api_key prompt username m of
        Inr result \<Rightarrow> (Inr result, [Call m])
      | Inl e \<Rightarrow>
          if is_http_or_timeout e then
            (case try_models fp post api_key prompt username n (Some e) ms of
               (r, ev) \<Rightarrow> (r, Call m # Sleep # ev))
          else if is_value_or_key e then
            (case try_models fp post api_key prompt username n (Some e) ms of
               (r, ev) \<Rightarrow> (r, Call m # ev))
          else (Inl e, [Call m]))"

definition unlines :: "string list \<Rightarrow> string" where
  "unlines ls = concat (map (\<lambda>l. l @ [CHR 0x0A]) ls)"

definition PORTFOLIO_EXTRACTION_PROMPT :: string where
  \<open>PORTFOLIO_EXTRACTION_PROMPT = unlines
     [''You are a top-tier professional resume parser. Extract structured information from the resume below and return ONLY valid JSON with exactly these keys.'',
      [],
      ''CRITICAL INSTRUCTIONS:'',
      ''1. DO NOT summarize or shorten any bullet points, responsibilities, or project descriptions.'',
      ''2. Extract EVERY single piece of information, including all metrics, tools, certifications, and dates exactly as they appear.'',
      ''3. If there are extra sections (like volunteer work, publications, or certifications), append them to the "achievements" list or the "bio" so NO DATA is lost.'',
      ''4. Return ONLY the raw JSON object. No markdown code blocks. No extra text. No explanation before or after.'',
      [],
      ''Required JSON structure:'',
      ''{'',
      ''  "name": "Full Name from resume",'',
      ''  "role": "Current or most recent job title",'',
      ''  "tagline": "One compelling professional tagline based on their background",'',
      ''  "bio": "2-3 sentence professional biography written in third person, based strictly on the resume",'',
      ''  "skills": ["skill1", "skill2", "skill3"],'',
      ''  "projects": ['',
      ''    {'',
      ''      "title": "Project Name",'',
      ''      "description": "Full description of the project and your contribution, preserving all original bullet points and details",'',
      ''      "technologies": ["tech1", "tech2"]'',
      ''    }'',
      ''  ],'',
      ''  "experience": ['',
      ''    {'',
      ''      "company": "Company Name",'',
      ''      "role": "Job Title",'',
      ''      "duration": "Month Year - Month Year (or Present)",'',
      ''      "description": "Full detailed description of responsibilities and achievements. Include all bullet points and details from the original resume without summarizing."'',
      ''    }'',
      ''  ],'',
      ''  "education": ['',
      ''    {'',
      ''      "institution": "University or School Name",'',
      ''      "degree": "Degree and Field of Study",'',
      ''      "year": "Graduation year or year range"'',
      ''    }'',
      ''  ],'',
      ''  "achievements": ["Notable achievement or award 1", "Notable achievement 2"],'',
      ''  "contact": {'',
      ''    "email": "email@example.com or empty string",'',
      ''    "phone": "phone number or empty string",'',
      ''    "linkedin": "full linkedin URL or empty string",'',
      ''    "github": "full github URL or empty string",'',
      ''    "website": "personal website URL or empty string"'',
      ''  }'',
      ''}'',
      [],
      ''Rules:'',
      ''- Extract ONLY information explicitly present in the resume. Do NOT invent or assume anything.'',
      ''- Use empty string "" for missing text fields and empty array [] for missing list fields.'',
      ''- Skills must be a flat list of individual skill strings.'',
      ''- If no projects are listed, use an empty array [].'',
      [],
      ''Resume text:'']\<close>

definition intent_prompt :: "string \<Rightarrow> string" where
  \<open>intent_prompt user_message = unlines
     [[],
      ''    You are an intent classification engine for an AI Career Assistant.'',
      ''    Analyze the following user message and classify it into exactly one of three categories:'',
      ''    '',
      ''    1. "INTERVIEW": The user is asking for interview questions, preparation, or what can be asked from their profile.'',
      ''       (e.g., "Suggest interview questions", "Important questions for my resume")'',
      ''       '',
      ''    2. "ATS": The user is asking to evaluate, score, or check their resume/ATS score.'',
      ''       (e.g., "Check my ATS score", "Analyze my resume", "Is my resume good?")'',
      ''       '',
      ''    3. "RAG": Any other question about the candidate'' @ [CHR 0x27] @ ''s background, skills, or general chat.'',
      ''       (e.g., "What are their skills?", "Tell me about them", "Hello")'',
      ''       '',
      ''    Reply ONLY with the exact word: INTERVIEW, ATS, or RAG. Do not include any other text.'',
      ''    '']
     @ ''    User message: "'' @ user_message @ ''"\<newline>    ''\<close>

definition generate_portfolio_data ::
  "py_ops \<Rightarrow> (llm_request \<Rightarrow> http_outcome) \<Rightarrow> string \<Rightarrow> string \<Rightarrow> string
     \<Rightarrow> string option \<Rightarrow> string \<Rightarrow> (py_error + pydict) \<times> event list" where
  "generate_portfolio_data fp post default_model resume_text api_key model username =
     (let prompt = PORTFOLIO_EXTRACTION_PROMPT @ resume_text;
          ms = models_to_try default_model model
      in try_models fp post api_key prompt username (length ms) None ms)"

definition calls :: "event list \<Rightarrow> string list" where
  "calls ev = concat (map (\<lambda>e. case e of Call m \<Rightarrow> [m] | Sleep \<Rightarrow> []) ev)"

section \<open>End to end (\<^verbatim>\<open>process_resume\<close>)\<close>

text \<open>
  A PDF is the list of its pages' extracted texts; the profile image step, which never
  raises, is the URL it returns, if any.
\<close>

definition extract_text_from_pdf :: "string list \<Rightarrow> string" where
  "extract_text_from_pdf pages = join [CHR 0x0A] (filter (\<lambda>t. t \<noteq> []) pages)"

definition no_text_message :: string where
  "no_text_message =
     ''No text could be extracted from the uploaded PDF. Please ensure it is a text-based PDF (not a scanned image).''"

definition process_resume ::
  "py_ops \<Rightarrow> (llm_request \<Rightarrow> http_outcome) \<Rightarrow> string \<Rightarrow> string list \<Rightarrow> string option
     \<Rightarrow> string \<Rightarrow> string option \<Rightarrow> string \<Rightarrow> (py_error + pydict) \<times> event list" where
  "process_resume fp post default_model pages profile_image_url api_key model username =
     (let text = extract_text_from_pdf pages in
      if strip text = [] then (Inl (ValueError no_text_message), [])
      else
        (case generate_portfolio_data fp post default_model text api_key model username of
           (Inl e, ev) \<Rightarrow> (Inl e, ev)
         | (Inr portfolio, ev) \<Rightarrow>
             (let p1 = dict_set portfolio ''_raw_text'' (PStr text);
                  p2 = (case profile_image_url of
                          None \<Rightarrow> p1
                        | Some url \<Rightarrow>
                            if url \<noteq> [] then dict_set p1 ''profile_image_url'' (PStr url) else p1)
              in (Inr p2, ev))))"

section \<open>Intent router (\<^verbatim>\<open>detect_intent\<close>)\<close>

text \<open>\<^verbatim>\<open>raise_for_status\<close> raises on every status outside 200 to 299.\<close>

definition call_gemini :: "(string \<Rightarrow> http_outcome) \<Rightarrow> string \<Rightarrow> py_error + pyval" where
  "call_gemini gemini prompt =
     (case gemini prompt of
        Timeout \<Rightarrow> Inl TimeoutException
      | NetworkError \<Rightarrow> Inl TransportError
      | Response status body \<Rightarrow>
          if \<not> (200 \<le> status \<and> status < 300) then
            Inl (HTTPStatusError (''status '' @ show_int status))
          else
            (case json_loads body of
               None \<Rightarrow> Inl (ValueError ''response body is not JSON'')
             | Some data \<Rightarrow>
                 and_then (getitem_key data ''candidates'') (\<lambda>candidates.
                 and_then (getitem_0 candidates) (\<lambda>candidate.
                 and_then (getitem_key candidate ''content'') (\<lambda>content.
                 and_then (getitem_key content ''parts'') (\<lambda>parts.
                 and_then (getitem_0 parts) (\<lambda>part.
                   getitem_key part ''text'')))))))"

text \<open>
  \<^verbatim>\<open>except Exception\<close> swallows every failure of the call and of \<^verbatim>\<open>response.strip()\<close>
  on a reply that is not a string.
\<close>

definition detect_intent :: "py_ops \<Rightarrow> (string \<Rightarrow> http_outcome) \<Rightarrow> string \<Rightarrow> string" where
  "detect_intent fp gemini user_message =
     (case call_gemini gemini (intent_prompt user_message) of
        Inl e \<Rightarrow> ''RAG''
      | Inr response \<Rightarrow>
          (case response of
             PStr s \<Rightarrow>
               (let intent = upper fp (strip s) in
                if intent \<in> set [''INTERVIEW'', ''ATS'', ''RAG''] then intent else ''RAG'')
           | _ \<Rightarrow> ''RAG''))"

section \<open>Job matcher\<close>

subsection \<open>More of Python: iteration, characters, substrings, replace\<close>

text \<open>\<^verbatim>\<open>for x in v\<close>: a dictionary yields its keys, a string its characters.\<close>

definition py_iter :: "pyval \<Rightarrow> py_error + pyval list" where
  "py_iter v =
     (case v of
        PList xs \<Rightarrow> Inr xs
      | PDict d \<Rightarrow> Inr (map (\<lambda>e. PStr (fst e)) d)
      | PStr s \<Rightarrow> Inr (map PStr (py_chars s))
      | _ \<Rightarrow> Inl TypeError)"

fun contains :: "string \<Rightarrow> string \<Rightarrow> bool" where
  "contains sub [] = (sub = [])"
| "contains sub (c # cs) = (take (length sub) (c # cs) = sub \<or> contains sub cs)"

text \<open>\<^verbatim>\<open>s.replace(old, "")\<close> for a non-empty \<open>old\<close>.\<close>

fun remove_all :: "string \<Rightarrow> string \<Rightarrow> string" where
  "remove_all old [] = []"
| "remove_all old (c # cs) =
     (if old \<noteq> [] \<and> take (length old) (c # cs) = old
      then remove_all old (drop (length old - 1) cs)
      else c # remove_all old cs)"

subsection \<open>Filters, portfolio, requests\<close>

record job_filter =
  location :: "string option"
  level :: "string option"
  remote :: "bool option"
  salary_min :: "int option"
  what :: "string option"

text \<open>The columns of the portfolio row that the job matcher reads.\<close>

record portfolio =
  slug :: string
  role :: pyval
  bio :: pyval
  skills :: pyval
  experience :: pyval
  contact :: pyval

text \<open>The query parameters of the listings URL.\<close>

record adzuna_request =
  q_country :: string
  q_what :: string
  q_where :: "string option"
  q_salary_min :: "int option"

datatype jobs_event = AdzunaCall adzuna_request | ScoringCall

record jobs_env =
  adzuna :: "adzuna_request \<Rightarrow> http_outcome"
  scoring :: http_outcome

subsection \<open>\<^verbatim>\<open>_fetch_adzuna_jobs\<close>\<close>

text \<open>\<^verbatim>\<open>" ".join(skills[:3])\<close>.\<close>

definition join_top_skills :: "pyval \<Rightarrow> py_error + string" where
  "join_top_skills v =
     (case v of
        PList xs \<Rightarrow>
          if list_all is_str (take 3 xs)
          then Inr (join '' '' (map (\<lambda>x. case x of PStr s \<Rightarrow> s | _ \<Rightarrow> []) (take 3 xs)))
          else Inl TypeError
      | PStr s \<Rightarrow> Inr (join '' '' (take 3 (py_chars s)))
      | _ \<Rightarrow> Inl TypeError)"

definition search_query :: "py_ops \<Rightarrow> string option \<Rightarrow> pyval \<Rightarrow> py_error + string" where
  "search_query fp what_filter skills0 =
     (let q0 = (case what_filter of None \<Rightarrow> [] | Some w \<Rightarrow> w) in
      and_then (if q0 = [] \<and> py_truthy fp skills0 then join_top_skills skills0 else Inr q0)
        (\<lambda>q1. Inr (if q1 = [] then ''software engineer'' else q1)))"

text \<open>\<^verbatim>\<open>job.get(key, {}).get("display_name", "Unknown")\<close>.\<close>

definition display_name :: "pydict \<Rightarrow> string \<Rightarrow> py_error + pyval" where
  "display_name job key =
     (case dict_get job key (PDict []) of
        PDict d \<Rightarrow> Inr (dict_get d ''display_name'' (PStr ''Unknown''))
      | _ \<Rightarrow> Inl AttributeError)"

definition parse_job :: "py_ops \<Rightarrow> bool \<Rightarrow> pyval \<Rightarrow> py_error + pydict list" where
  "parse_job fp remote_only job0 =
     (case job0 of
        PDict job \<Rightarrow>
          (let title_desc = lower fp (py_str fp (dict_get job ''title'' (PStr []))
                                   @ '' '' @ py_str fp (dict_get job ''description'' (PStr [])))
           in if remote_only \<and> \<not> contains ''remote'' title_desc
                 \<and> \<not> contains ''work from home'' title_desc
              then Inr []
              else
                and_then (display_name job ''company'') (\<lambda>company.
                and_then (display_name job ''location'') (\<lambda>loc.
                  Inr [[(''id'', dict_get job ''id'' PNone),
                        (''title'', dict_get job ''title'' PNone),
                        (''company'', company),
                        (''location'', loc),
                        (''salary_min'', dict_get job ''salary_min'' PNone),
                        (''salary_max'', dict_get job ''salary_max'' PNone),
                        (''description'', dict_get job ''description'' (PStr [])),
                        (''url'', dict_get job ''redirect_url'' PNone)]])))
      | _ \<Rightarrow> Inl AttributeError)"

fun parse_jobs :: "py_ops \<Rightarrow> bool \<Rightarrow> pyval list \<Rightarrow> py_error + pydict list" where
  "parse_jobs fp remote_only [] = Inr []"
| "parse_jobs fp remote_only (job # rest) =
     (case parse_job fp remote_only job of
        Inl e \<Rightarrow> Inl e
      | Inr js \<Rightarrow>
          (case parse_jobs fp remote_only rest of
             Inl e \<Rightarrow> Inl e
           | Inr others \<Rightarrow> Inr (js @ others)))"

definition fetch_adzuna_jobs ::
  "py_ops \<Rightarrow> string \<Rightarrow> string \<Rightarrow> (adzuna_request \<Rightarrow> http_outcome) \<Rightarrow> pyval \<Rightarrow> job_filter
     \<Rightarrow> string \<Rightarrow> (py_error + pydict list) \<times> jobs_event list" where
  "fetch_adzuna_jobs fp app_id app_key get skills0 filters user_country =
     (if app_id = [] \<or> app_key = [] then
        (Inl (ValueError ''Job search integration is not configured (missing Adzuna keys).''), [])
      else
        (case search_query fp (what filters) skills0 of
           Inl e \<Rightarrow> (Inl e, [])
         | Inr q \<Rightarrow>
             (let rq = \<lparr>q_country = user_country, q_what = q,
                        q_where = (case location filters of
                                     None \<Rightarrow> None
                                   | Some l \<Rightarrow> if l = [] then None else Some l),
                        q_salary_min = (case salary_min filters of
                                          None \<Rightarrow> None
                                        | Some n \<Rightarrow> if n = 0 then None else Some n)\<rparr>
              in ((case get rq of
                     Timeout \<Rightarrow> Inl TimeoutException
                   | NetworkError \<Rightarrow> Inl TransportError
                   | Response status body \<Rightarrow>
                       if status \<noteq> 200 then Inr []
                       else
                         (case json_loads body of
                            None \<Rightarrow> Inl (ValueError ''response body is not JSON'')
                          | Some data \<Rightarrow>
                              (case data of
                                 PDict d \<Rightarrow>
                                   and_then (py_iter (dict_get d ''results'' (PList [])))
                                     (parse_jobs fp (remote filters = Some True))
                               | _ \<Rightarrow> Inl AttributeError))),
                  [AdzunaCall rq]))))"

subsection \<open>\<^verbatim>\<open>_score_and_filter_jobs\<close>\<close>

text \<open>
  The prompt is built before the \<^verbatim>\<open>try\<close> block. Its text only travels to the endpoint;
  what the model keeps of it is where building it raises: the join of the skills, and for
  each of the first fifteen jobs the three subscripts and the slice and concatenation of
  the description.
\<close>

definition skills_join_check :: "py_ops \<Rightarrow> pyval \<Rightarrow> py_error option" where
  "skills_join_check fp skills0 =
     (case (if py_truthy fp skills0 then skills0 else PList []) of
        PList xs \<Rightarrow> if list_all is_str xs then None else Some TypeError
      | PStr s \<Rightarrow> None
      | PDict d \<Rightarrow> None
      | _ \<Rightarrow> Some TypeError)"

definition job_entry_check :: "pydict \<Rightarrow> py_error option" where
  "job_entry_check j =
     (case map_of j ''title'' of
        None \<Rightarrow> Some KeyError
      | Some t \<Rightarrow>
          (case map_of j ''company'' of
             None \<Rightarrow> Some KeyError
           | Some c \<Rightarrow>
               (case map_of j ''description'' of
                  None \<Rightarrow> Some KeyError
                | Some d \<Rightarrow> if is_str d then None else Some TypeError)))"

fun first_error :: "py_error option list \<Rightarrow> py_error option" where
  "first_error [] = None"
| "first_error (None # es) = first_error es"
| "first_error (Some e # es) = Some e"

definition scoring_prompt_check :: "py_ops \<Rightarrow> pydict list \<Rightarrow> portfolio \<Rightarrow> py_error option" where
  "scoring_prompt_check fp jobs_to_score p =
     first_error (skills_join_check fp (skills p) # map job_entry_check jobs_to_score)"

text \<open>\<^verbatim>\<open>idx is not None and 0 <= idx < len(jobs_to_score)\<close>, then the subscript.\<close>

definition index_of :: "py_ops \<Rightarrow> nat \<Rightarrow> pyval \<Rightarrow> py_error + nat option" where
  "index_of fp n idx =
     (case idx of
        PNone \<Rightarrow> Inr None
      | PInt i \<Rightarrow> Inr (if 0 \<le> i \<and> i < int n then Some (nat i) else None)
      | PBool b \<Rightarrow> Inr (if (if b then 1 else 0) < n then Some (if b then 1 else 0) else None)
      | PFloat l \<Rightarrow> if 0 \<le> float_val fp l \<and> float_val fp l < of_nat n then Inl TypeError else Inr None
      | _ \<Rightarrow> Inl TypeError)"

definition score_ge_40 :: "py_ops \<Rightarrow> pyval \<Rightarrow> py_error + bool" where
  "score_ge_40 fp v =
     (case v of
        PInt i \<Rightarrow> Inr (40 \<le> i)
      | PBool b \<Rightarrow> Inr False
      | PFloat l \<Rightarrow> Inr (40 \<le> float_val fp l)
      | _ \<Rightarrow> Inl TypeError)"

definition score_num :: "py_ops \<Rightarrow> pyval \<Rightarrow> rat" where
  "score_num fp v =
     (case v of
        PInt i \<Rightarrow> of_int i
      | PBool b \<Rightarrow> (if b then 1 else 0)
      | PFloat l \<Rightarrow> float_val fp l
      | _ \<Rightarrow> 0)"

definition score_entry :: "py_ops \<Rightarrow> pydict list \<Rightarrow> pyval \<Rightarrow> py_error + pydict list" where
  "score_entry fp jobs_to_score s0 =
     (case s0 of
        PDict s \<Rightarrow>
          and_then (index_of fp (length jobs_to_score) (dict_get s ''index'' PNone)) (\<lambda>idx.
            case idx of
              None \<Rightarrow> Inr []
            | Some i \<Rightarrow>
                (let job = dict_set (dict_set (jobs_to_score ! i)
                                       ''match_score'' (dict_get s ''score'' (PInt 0)))
                             ''match_reason'' (dict_get s ''reason'' (PStr ''Good match for your profile.''))
                 in and_then (score_ge_40 fp (dict_get s ''score'' (PInt 0)))
                      (\<lambda>keep. Inr (if keep then [job] else []))))
      | _ \<Rightarrow> Inl AttributeError)"

fun merge_scores :: "py_ops \<Rightarrow> pydict list \<Rightarrow> pyval list \<Rightarrow> py_error + pydict list" where
  "merge_scores fp jobs_to_score [] = Inr []"
| "merge_scores fp jobs_to_score (s # ss) =
     (case score_entry fp jobs_to_score s of
        Inl e \<Rightarrow> Inl e
      | Inr kept \<Rightarrow>
          (case merge_scores fp jobs_to_score ss of
             Inl e \<Rightarrow> Inl e
           | Inr rest \<Rightarrow> Inr (kept @ rest)))"

text \<open>\<^verbatim>\<open>data["choices"][0]["message"]["content"]\<close>.\<close>

definition reply_content :: "pyval \<Rightarrow> py_error + pyval" where
  "reply_content data =
     and_then (getitem_key data ''choices'') (\<lambda>choices.
     and_then (getitem_0 choices) (\<lambda>choice.
     and_then (getitem_key choice ''message'') (\<lambda>message.
       getitem_key message ''content'')))"

text \<open>
  The body of the \<^verbatim>\<open>try\<close> block: \<open>Inr (Some jobs)\<close> is its \<^verbatim>\<open>return\<close>,
  \<open>Inr None\<close> the logged non-200 answer, \<open>Inl\<close> an exception, which
  \<^verbatim>\<open>except Exception\<close> catches. The sort is stable and descending in the score.
\<close>

definition scoring_body :: "py_ops \<Rightarrow> pydict list \<Rightarrow> http_outcome \<Rightarrow> py_error + pydict list option" where
  "scoring_body fp jobs_to_score outcome =
     (case outcome of
        Timeout \<Rightarrow> Inl TimeoutException
      | NetworkError \<Rightarrow> Inl TransportError
      | Response status body \<Rightarrow>
          if status = 200 then
            (case json_loads body of
               None \<Rightarrow> Inl (ValueError ''response body is not JSON'')
             | Some data \<Rightarrow>
                 and_then (reply_content data) (\<lambda>content0.
                   case content0 of
                     PStr c \<Rightarrow>
                       (let content = strip (remove_all ''```'' (remove_all ''```json'' c)) in
                        case json_loads content of
                          None \<Rightarrow> Inl (ValueError ''scores are not JSON'')
                        | Some scores \<Rightarrow>
                            and_then (py_iter scores) (\<lambda>items.
                            and_then (merge_scores fp jobs_to_score items) (\<lambda>scored_jobs.
                              Inr (Some (sort_key
                                (\<lambda>j. - score_num fp (dict_get j ''match_score'' (PInt 0)))
                                scored_jobs)))))
                   | _ \<Rightarrow> Inl AttributeError))
          else Inr None)"

definition fallback_jobs :: "pydict list \<Rightarrow> pydict list" where
  "fallback_jobs jobs =
     map (\<lambda>(i, j). dict_set (dict_set j ''match_score'' (PInt (80 - int i * 2)))
                      ''match_reason'' (PStr ''Based on keyword matching with your resume skills.''))
         (enumerate 0 (take 10 jobs))"

definition score_and_filter_jobs ::
  "py_ops \<Rightarrow> pydict list \<Rightarrow> portfolio \<Rightarrow> http_outcome
     \<Rightarrow> (py_error + pydict list) \<times> jobs_event list" where
  "score_and_filter_jobs fp jobs p outcome =
     (if jobs = [] then (Inr [], [])
      else
        (case scoring_prompt_check fp (take 15 jobs) p of
           Some e \<Rightarrow> (Inl e, [])
         | None \<Rightarrow>
             (case scoring_body fp (take 15 jobs) outcome of
                Inr (Some scored_jobs) \<Rightarrow> (Inr scored_jobs, [ScoringCall])
              | _ \<Rightarrow> (Inr (fallback_jobs jobs), [ScoringCall]))))"

subsection \<open>The cache (\<^verbatim>\<open>TTLCache(maxsize=100, ttl=600)\<close>)\<close>

text \<open>
  The cache is the list of its entries, key, value and expiry time, least recently used
  first. The clock is a parameter: the times at which a request tests membership, reads
  and stores. An entry is alive while the time is strictly before its expiry; storing
  drops the expired entries, then, for a new key, the least recently used ones until
  there is room, and puts the entry last with expiry \<open>ttl\<close> later.
\<close>

type_synonym ttl_cache = "(string \<times> (pydict list \<times> real)) list"

record clock =
  t_contains :: real
  t_getitem :: real
  t_setitem :: real

definition maxsize :: nat where "maxsize = 100"

definition ttl :: real where "ttl = 600"

definition cache_contains :: "ttl_cache \<Rightarrow> real \<Rightarrow> string \<Rightarrow> bool" where
  "cache_contains c t key = (case map_of c key of None \<Rightarrow> False | Some (v, e) \<Rightarrow> t < e)"

definition move_to_end :: "string \<Rightarrow> ttl_cache \<Rightarrow> ttl_cache" where
  "move_to_end key c =
     (case map_of c key of
        None \<Rightarrow> c
      | Some entry \<Rightarrow> filter (\<lambda>kv. fst kv \<noteq> key) c @ [(key, entry)])"

definition cache_getitem :: "ttl_cache \<Rightarrow> real \<Rightarrow> string \<Rightarrow> (py_error + pydict list) \<times> ttl_cache" where
  "cache_getitem c t key =
     (case map_of c key of
        None \<Rightarrow> (Inl KeyError, c)
      | Some (v, e) \<Rightarrow> (if t < e then Inr v else Inl KeyError, move_to_end key c))"

definition cache_setitem :: "ttl_cache \<Rightarrow> real \<Rightarrow> string \<Rightarrow> pydict list \<Rightarrow> ttl_cache" where
  "cache_setitem c t key v =
     (let c1 = filter (\<lambda>kv. t < snd (snd kv)) c;
          c2 = (if key \<in> fst ` set c1 then c1 else drop (length c1 + 1 - maxsize) c1)
      in filter (\<lambda>kv. fst kv \<noteq> key) c2 @ [(key, (v, t + ttl))])"

subsection \<open>\<^verbatim>\<open>get_recommended_jobs\<close>\<close>

definition fmt_opt :: "('a \<Rightarrow> string) \<Rightarrow> 'a option \<Rightarrow> string" where
  "fmt_opt f x = (case x of None \<Rightarrow> ''None'' | Some v \<Rightarrow> f v)"

definition cache_key :: "string \<Rightarrow> job_filter \<Rightarrow> string" where
  "cache_key s filters =
     s @ ''_'' @ fmt_opt id (location filters) @ ''-'' @ fmt_opt id (level filters) @ ''-''
       @ fmt_opt (\<lambda>b. if b then ''True'' else ''False'') (remote filters) @ ''-''
       @ fmt_opt show_int (salary_min filters) @ ''-'' @ fmt_opt id (what filters)"

definition user_country :: "pyval \<Rightarrow> py_error + string" where
  "user_country contact0 =
     (case contact0 of
        PDict d \<Rightarrow>
          if d = [] then Inr ''us''
          else (case dict_get d ''phone'' (PStr []) of
                  PStr phone \<Rightarrow>
                    Inr (if take 3 phone = ''+44'' then ''gb''
                         else if take 3 phone = ''+91'' then ''in'' else ''us'')
                | _ \<Rightarrow> Inl AttributeError)
      | _ \<Rightarrow> Inr ''us'')"

definition get_recommended_jobs ::
  "py_ops \<Rightarrow> string \<Rightarrow> string \<Rightarrow> jobs_env \<Rightarrow> ttl_cache \<Rightarrow> clock \<Rightarrow> portfolio \<Rightarrow> job_filter
     \<Rightarrow> (py_error + pydict list) \<times> ttl_cache \<times> jobs_event list" where
  "get_recommended_jobs fp app_id app_key env jobs_cache clk p filters =
     (let key = cache_key (slug p) filters in
      if cache_contains jobs_cache (t_contains clk) key then
        (case cache_getitem jobs_cache (t_getitem clk) key of (r, c) \<Rightarrow> (r, c, []))
      else
        (case user_country (contact p) of
           Inl e \<Rightarrow> (Inl e, jobs_cache, [])
         | Inr country \<Rightarrow>
             (case fetch_adzuna_jobs fp app_id app_key (adzuna env)
                     (if py_truthy fp (skills p) then skills p else PList []) filters country of
                (Inl e, ev) \<Rightarrow> (Inl e, jobs_cache, ev)
              | (Inr raw_jobs, ev) \<Rightarrow>
                  (case score_and_filter_jobs fp raw_jobs p (scoring env) of
                     (Inl e, ev2) \<Rightarrow> (Inl e, jobs_cache, ev @ ev2)
                   | (Inr scored_jobs, ev2) \<Rightarrow>
                       (Inr scored_jobs,
                        cache_setitem jobs_cache (t_setitem clk) key scored_jobs,
                        ev @ ev2)))))"

section \<open>Notions used in the proofs\<close>

text \<open>
  A byte that is a character of its own and not white space; the scanner being inside a
  string literal; a byte that a string literal takes without leaving the plain state (the
  space and the bytes of the characters beyond ASCII).
\<close>

definition plain :: "char \<Rightarrow> bool" where
  "plain c = ((of_char c :: nat) < 128 \<and> \<not> space_seq [c])"

definition in_str :: "smode \<Rightarrow> bool" where
  "in_str m = (case m of InStr e b \<Rightarrow> True | _ \<Rightarrow> False)"

definition str_safe :: "char \<Rightarrow> bool" where
  "str_safe c = ((of_char c :: nat) = 32 \<or> 128 \<le> (of_char c :: nat))"

section \<open>Concrete inputs\<close>

text \<open>
  Operations for inputs that hold no float and only ASCII text: none of them is consulted.
\<close>

definition no_floats :: py_ops where
  "no_floats = \<lparr>float_bool = (\<lambda>l. True), float_str = (\<lambda>l. l), float_val = (\<lambda>l. 0),
                 text_upper = (\<lambda>s. s), text_lower = (\<lambda>s. s), text_title = (\<lambda>s. s),
                 text_repr = (\<lambda>s. s)\<rparr>"


text \<open>
  Two endpoints: one answers 429 to every model but the last fallback, which returns an
  empty object as its reply text; the other answers every model with status 200 and an
  empty list of choices.
\<close>

definition gemma :: string where
  "gemma = ''google/gemma-3-12b-it:free''"

definition last_model_post :: "llm_request \<Rightarrow> http_outcome" where
  \<open>last_model_post rq =
     (if rq_model rq = ''qwen/qwen3-4b:free''
      then Response 200 ''{"choices": [{"message": {"content": "{}"}}]}''
      else Response 429 [])\<close>

definition empty_choices_post :: "llm_request \<Rightarrow> http_outcome" where
  \<open>empty_choices_post rq = Response 200 ''{"choices": []}''\<close>

definition always_429 :: "llm_request \<Rightarrow> http_outcome" where
  "always_429 rq = Response 429 []"

text \<open>An endpoint that cannot be reached: every request ends in a connection error.\<close>

definition unreachable_post :: "llm_request \<Rightarrow> http_outcome" where
  "unreachable_post rq = NetworkError"

text \<open>A classification endpoint that is down, and one that answers in lower case.\<close>

definition gemini_down :: "string \<Rightarrow> http_outcome" where
  "gemini_down prompt = Response 503 []"

definition gemini_ats :: "string \<Rightarrow> http_outcome" where
  \<open>gemini_ats prompt = Response 200 ''{"candidates": [{"content": {"parts": [{"text": " ats "}]}}]}''\<close>

text \<open>
  Twenty listings as the fetch step builds them, a portfolio, and a scoring endpoint whose
  reply is prose.
\<close>

definition listing :: "nat \<Rightarrow> pydict" where
  "listing i =
     [(''id'', PInt (int i)), (''title'', PStr ''Engineer''), (''company'', PStr ''Acme''),
      (''location'', PStr ''Remote''), (''salary_min'', PNone), (''salary_max'', PNone),
      (''description'', PStr ''Build things''), (''url'', PStr ''https://example.org/job'')]"

definition listings20 :: "pydict list" where
  "listings20 = map listing [0..<20]"

definition ada :: portfolio where
  "ada = \<lparr>slug = ''ada'', role = PStr ''Engineer'', bio = PStr [],
           skills = PList [PStr ''python''], experience = PList [], contact = PDict []\<rparr>"

definition prose_reply :: http_outcome where
  \<open>prose_reply = Response 200 ''{"choices": [{"message": {"content": "I cannot score these."}}]}''\<close>


text \<open>A listings endpoint whose one result has a null description.\<close>

definition null_description :: "adzuna_request \<Rightarrow> http_outcome" where
  \<open>null_description rq =
     Response 200 ''{"results": [{"id": 7, "title": "Engineer", "description": null}]}''\<close>


definition no_filter :: job_filter where
  "no_filter = \<lparr>location = None, level = None, remote = None, salary_min = None, what = None\<rparr>"


section \<open>Properties of the schema normalisation\<close>

lemma coerce_list: "coerce fp (PList []) v = (if is_list v then v else PList [])"
  by (cases v) (simp_all add: coerce_def)

lemma coerce_dict: "coerce fp (PDict []) v = (if is_dict v then v else PDict [])"
  by (cases v) (simp_all add: coerce_def)

lemma coerce_str:
  "coerce fp (PStr s) v =
     (if is_str v then v else if py_truthy fp v then PStr (py_str fp v) else PStr s)"
  by (cases v) (simp_all add: coerce_def)

lemma is_list_conv: "is_list v \<longleftrightarrow> (\<exists>xs. v = PList xs)"
  by (cases v) simp_all

lemma is_dict_conv: "is_dict v \<longleftrightarrow> (\<exists>kv. v = PDict kv)"
  by (cases v) simp_all

lemma is_str_conv: "is_str v \<longleftrightarrow> (\<exists>s. v = PStr s)"
  by (cases v) simp_all

lemma coerce_list_is_list: "is_list (coerce fp (PList []) v)"
  by (simp add: coerce_list)

lemma coerce_dict_is_dict: "is_dict (coerce fp (PDict []) v)"
  by (simp add: coerce_dict)

lemma coerce_str_is_str: "is_str (coerce fp (PStr s) v)"
  by (simp add: coerce_str)

lemma coerce_idem_list: "coerce fp (PList []) (coerce fp (PList []) v) = coerce fp (PList []) v"
  by (simp add: coerce_list)

lemma coerce_idem_dict: "coerce fp (PDict []) (coerce fp (PDict []) v) = coerce fp (PDict []) v"
  by (simp add: coerce_dict)

lemma coerce_idem_str: "coerce fp (PStr s) (coerce fp (PStr s) v) = coerce fp (PStr s) v"
  by (simp add: coerce_str)

lemma normalise_dict:
  "validate_and_normalise fp (PDict d) u =
     Inr [(''name'', coerce fp (PStr (if u \<noteq> [] then title fp u else ''Unknown''))
                       (dict_get d ''name'' (PStr (if u \<noteq> [] then title fp u else ''Unknown'')))),
          (''role'', coerce fp (PStr []) (dict_get d ''role'' (PStr []))),
          (''tagline'', coerce fp (PStr []) (dict_get d ''tagline'' (PStr []))),
          (''bio'', coerce fp (PStr []) (dict_get d ''bio'' (PStr []))),
          (''skills'', coerce fp (PList []) (dict_get d ''skills'' (PList []))),
          (''projects'', coerce fp (PList []) (dict_get d ''projects'' (PList []))),
          (''experience'', coerce fp (PList []) (dict_get d ''experience'' (PList []))),
          (''education'', coerce fp (PList []) (dict_get d ''education'' (PList []))),
          (''achievements'', coerce fp (PList []) (dict_get d ''achievements'' (PList []))),
          (''contact'', coerce fp (PDict []) (dict_get d ''contact'' (PDict [])))]"
  by (simp add: validate_and_normalise_def defaults_def)

text \<open>
  Claim C9: normalisation is idempotent. Whenever normalising the dictionary \<open>d\<close> for a
  user name returns \<open>r\<close>, normalising \<open>r\<close> again for the same user name returns
  \<open>r\<close> unchanged.
\<close>

theorem normalise_idempotent:
  assumes "validate_and_normalise fp (PDict d) username = Inr r"
  shows "validate_and_normalise fp (PDict r) username = Inr r"
proof -
  have r: "r = projr (validate_and_normalise fp (PDict d) username)"
    using assms by simp
  show ?thesis
    unfolding r normalise_dict[of fp d]
    by (simp add: normalise_dict dict_get_def coerce_idem_list coerce_idem_dict coerce_idem_str)
qed


lemma lookup_list_key:
  assumes "k \<in> set [''skills'', ''projects'', ''experience'', ''education'', ''achievements'']"
  shows "map_of (projr (validate_and_normalise fp (PDict d) u)) k
           = Some (coerce fp (PList []) (dict_get d k (PList [])))"
  using assms unfolding normalise_dict by auto

lemma lookup_name:
  "map_of (projr (validate_and_normalise fp (PDict d) u)) ''name''
     = Some (coerce fp (PStr (if u \<noteq> [] then title fp u else ''Unknown''))
               (dict_get d ''name'' (PStr (if u \<noteq> [] then title fp u else ''Unknown''))))"
  unfolding normalise_dict by simp

lemma lookup_role:
  "map_of (projr (validate_and_normalise fp (PDict d) u)) ''role''
     = Some (coerce fp (PStr []) (dict_get d ''role'' (PStr [])))"
  unfolding normalise_dict by simp

lemma lookup_tagline:
  "map_of (projr (validate_and_normalise fp (PDict d) u)) ''tagline''
     = Some (coerce fp (PStr []) (dict_get d ''tagline'' (PStr [])))"
  unfolding normalise_dict by simp

lemma lookup_bio:
  "map_of (projr (validate_and_normalise fp (PDict d) u)) ''bio''
     = Some (coerce fp (PStr []) (dict_get d ''bio'' (PStr [])))"
  unfolding normalise_dict by simp

lemma lookup_str_key:
  assumes "k \<in> set [''name'', ''role'', ''tagline'', ''bio'']"
  shows "\<exists>s0. map_of (projr (validate_and_normalise fp (PDict d) u)) k
           = Some (coerce fp (PStr s0) (dict_get d k (PStr s0)))"
proof -
  from assms consider "k = ''name''" | "k = ''role''" | "k = ''tagline''" | "k = ''bio''"
    by auto
  then show ?thesis
  proof cases
    case 1 then show ?thesis using lookup_name[of fp d u] by blast
  next
    case 2 then show ?thesis using lookup_role[of fp d u] by blast
  next
    case 3 then show ?thesis using lookup_tagline[of fp d u] by blast
  next
    case 4 then show ?thesis using lookup_bio[of fp d u] by blast
  qed
qed

lemma lookup_contact:
  "map_of (projr (validate_and_normalise fp (PDict d) u)) ''contact''
     = Some (coerce fp (PDict []) (dict_get d ''contact'' (PDict [])))"
  unfolding normalise_dict by simp

lemma normalised_keys:
  "map fst (projr (validate_and_normalise fp (PDict d) u))
     = [''name'', ''role'', ''tagline'', ''bio'', ''skills'', ''projects'',
        ''experience'', ''education'', ''achievements'', ''contact'']"
  unfolding normalise_dict by simp

lemma lookup_plain_str_key:
  assumes "k \<in> set [''role'', ''tagline'', ''bio'']"
  shows "map_of (projr (validate_and_normalise fp (PDict d) u)) k
           = Some (coerce fp (PStr []) (dict_get d k (PStr [])))"
  using assms unfolding normalise_dict by auto

lemma coerce_list_value:
  "coerce fp (PList []) (dict_get d k (PList []))
     = (case map_of d k of Some (PList xs) \<Rightarrow> PList xs | _ \<Rightarrow> PList [])"
  by (simp add: coerce_list dict_get_def split: option.splits pyval.splits)

lemma coerce_dict_value:
  "coerce fp (PDict []) (dict_get d k (PDict []))
     = (case map_of d k of Some (PDict c) \<Rightarrow> PDict c | _ \<Rightarrow> PDict [])"
  by (simp add: coerce_dict dict_get_def split: option.splits pyval.splits)

lemma coerce_str_value:
  "coerce fp (PStr s0) (dict_get d k (PStr s0))
     = (case map_of d k of
          None \<Rightarrow> PStr s0
        | Some (PStr s) \<Rightarrow> PStr s
        | Some v \<Rightarrow> if py_truthy fp v then PStr (py_str fp v) else PStr s0)"
  by (simp add: coerce_str dict_get_def split: option.splits pyval.splits)

text \<open>
  Claim C3: for every parsed dictionary the normalisation returns a mapping holding exactly
  the ten required keys, in the order of the schema. A list-typed key holds the list the
  input gives it, and the empty list when the key is missing or its value is not a list.
  \<open>contact\<close> holds the mapping the input gives it, and the empty mapping when it is
  missing or not a mapping (a list in particular). A string-typed key holds the string the
  input gives it; when the key is missing it holds its default (the empty string, for
  \<open>name\<close> the capitalised user name or \<open>Unknown\<close>); a value that is not a string is
  replaced by its string conversion \<^verbatim>\<open>str(v)\<close> when it is truthy and by the default
  when it is falsy.
\<close>

theorem normalise_schema:
  "\<exists>r. validate_and_normalise fp (PDict d) username = Inr r
     \<and> map fst r = [''name'', ''role'', ''tagline'', ''bio'', ''skills'', ''projects'',
                     ''experience'', ''education'', ''achievements'', ''contact'']
     \<and> (\<forall>k \<in> set [''skills'', ''projects'', ''experience'', ''education'', ''achievements''].
          map_of r k = Some (case map_of d k of Some (PList xs) \<Rightarrow> PList xs | _ \<Rightarrow> PList []))
     \<and> map_of r ''contact''
          = Some (case map_of d ''contact'' of Some (PDict c) \<Rightarrow> PDict c | _ \<Rightarrow> PDict [])
     \<and> (\<forall>k \<in> set [''role'', ''tagline'', ''bio''].
          map_of r k = Some (case map_of d k of
                               None \<Rightarrow> PStr []
                             | Some (PStr s) \<Rightarrow> PStr s
                             | Some v \<Rightarrow> if py_truthy fp v then PStr (py_str fp v) else PStr []))
     \<and> map_of r ''name''
          = Some (case map_of d ''name'' of
                    None \<Rightarrow> PStr (if username \<noteq> [] then title fp username else ''Unknown'')
                  | Some (PStr s) \<Rightarrow> PStr s
                  | Some v \<Rightarrow> if py_truthy fp v then PStr (py_str fp v)
                              else PStr (if username \<noteq> [] then title fp username else ''Unknown''))
     \<and> (map_of d ''skills'' = None \<longrightarrow> map_of r ''skills'' = Some (PList []))
     \<and> (\<forall>xs. map_of d ''contact'' = Some (PList xs) \<longrightarrow> map_of r ''contact'' = Some (PDict []))"
proof -
  define r where "r = projr (validate_and_normalise fp (PDict d) username)"
  have r: "validate_and_normalise fp (PDict d) username = Inr r"
    unfolding r_def normalise_dict by simp
  have keys: "map fst r = [''name'', ''role'', ''tagline'', ''bio'', ''skills'', ''projects'',
                     ''experience'', ''education'', ''achievements'', ''contact'']"
    unfolding r_def by (rule normalised_keys)
  have l: "map_of r k = Some (case map_of d k of Some (PList xs) \<Rightarrow> PList xs | _ \<Rightarrow> PList [])"
    if "k \<in> set [''skills'', ''projects'', ''experience'', ''education'', ''achievements'']" for k
    unfolding r_def lookup_list_key[OF that] coerce_list_value ..
  have c: "map_of r ''contact''
          = Some (case map_of d ''contact'' of Some (PDict c) \<Rightarrow> PDict c | _ \<Rightarrow> PDict [])"
    unfolding r_def lookup_contact coerce_dict_value ..
  have s: "map_of r k = Some (case map_of d k of
                               None \<Rightarrow> PStr []
                             | Some (PStr s) \<Rightarrow> PStr s
                             | Some v \<Rightarrow> if py_truthy fp v then PStr (py_str fp v) else PStr [])"
    if "k \<in> set [''role'', ''tagline'', ''bio'']" for k
    unfolding r_def lookup_plain_str_key[OF that] coerce_str_value ..
  have n: "map_of r ''name''
          = Some (case map_of d ''name'' of
                    None \<Rightarrow> PStr (if username \<noteq> [] then title fp username else ''Unknown'')
                  | Some (PStr s) \<Rightarrow> PStr s
                  | Some v \<Rightarrow> if py_truthy fp v then PStr (py_str fp v)
                              else PStr (if username \<noteq> [] then title fp username else ''Unknown''))"
    unfolding r_def lookup_name coerce_str_value ..
  have sk: "map_of d ''skills'' = None \<longrightarrow> map_of r ''skills'' = Some (PList [])"
    using l[of "''skills''"] by simp
  have cl: "\<forall>xs. map_of d ''contact'' = Some (PList xs) \<longrightarrow> map_of r ''contact'' = Some (PDict [])"
    using c by simp
  show ?thesis
    apply (intro exI[where x = r] conjI ballI)
           apply (rule r)
          apply (rule keys)
         apply (erule l)
        apply (rule c)
       apply (erule s)
      apply (rule n)
     apply (rule sk)
    apply (rule cl)
    done
qed

lemma str_of_seven: "py_str no_floats (PInt 7) = ''7''"
  by code_simp

theorem normalise_schema_witness:
  "(\<exists>r. validate_and_normalise no_floats
          (PDict [(''contact'', PList []), (''role'', PInt 7), (''bio'', PInt 0),
                  (''tagline'', PStr ''Hi''), (''projects'', PList [PStr ''p''])]) ''ada'' = Inr r
        \<and> map_of r ''skills'' = Some (PList [])
        \<and> map_of r ''projects'' = Some (PList [PStr ''p''])
        \<and> map_of r ''contact'' = Some (PDict [])
        \<and> map_of r ''role'' = Some (PStr ''7'')
        \<and> map_of r ''bio'' = Some (PStr [])
        \<and> map_of r ''tagline'' = Some (PStr ''Hi''))"
proof -
  let ?d = "[(''contact'', PList []), (''role'', PInt 7), (''bio'', PInt 0),
             (''tagline'', PStr ''Hi''), (''projects'', PList [PStr ''p''])]"
  from normalise_schema[of no_floats ?d "''ada''"]
  obtain r where r: "validate_and_normalise no_floats (PDict ?d) ''ada'' = Inr r"
    and L: "\<forall>k \<in> set [''skills'', ''projects'', ''experience'', ''education'', ''achievements''].
          map_of r k = Some (case map_of ?d k of Some (PList xs) \<Rightarrow> PList xs | _ \<Rightarrow> PList [])"
    and C: "map_of r ''contact''
          = Some (case map_of ?d ''contact'' of Some (PDict c) \<Rightarrow> PDict c | _ \<Rightarrow> PDict [])"
    and S: "\<forall>k \<in> set [''role'', ''tagline'', ''bio''].
          map_of r k = Some (case map_of ?d k of
                               None \<Rightarrow> PStr []
                             | Some (PStr s) \<Rightarrow> PStr s
                             | Some v \<Rightarrow> if py_truthy no_floats v then PStr (py_str no_floats v) else PStr [])"
    by (elim exE conjE)
  from L have "map_of r ''skills'' = Some (case map_of ?d ''skills'' of Some (PList xs) \<Rightarrow> PList xs | _ \<Rightarrow> PList [])"
    by (rule bspec) simp
  then have sk: "map_of r ''skills'' = Some (PList [])" by simp
  from L have "map_of r ''projects'' = Some (case map_of ?d ''projects'' of Some (PList xs) \<Rightarrow> PList xs | _ \<Rightarrow> PList [])"
    by (rule bspec) simp
  then have pr: "map_of r ''projects'' = Some (PList [PStr ''p''])" by simp
  from C have ct: "map_of r ''contact'' = Some (PDict [])" by simp
  from S have "map_of r ''role'' = Some (case map_of ?d ''role'' of
                               None \<Rightarrow> PStr []
                             | Some (PStr s) \<Rightarrow> PStr s
                             | Some v \<Rightarrow> if py_truthy no_floats v then PStr (py_str no_floats v) else PStr [])"
    by (rule bspec) simp
  then have ro: "map_of r ''role'' = Some (PStr ''7'')" by (simp add: str_of_seven)
  from S have "map_of r ''bio'' = Some (case map_of ?d ''bio'' of
                               None \<Rightarrow> PStr []
                             | Some (PStr s) \<Rightarrow> PStr s
                             | Some v \<Rightarrow> if py_truthy no_floats v then PStr (py_str no_floats v) else PStr [])"
    by (rule bspec) simp
  then have bi: "map_of r ''bio'' = Some (PStr [])" by simp
  from S have "map_of r ''tagline'' = Some (case map_of ?d ''tagline'' of
                               None \<Rightarrow> PStr []
                             | Some (PStr s) \<Rightarrow> PStr s
                             | Some v \<Rightarrow> if py_truthy no_floats v then PStr (py_str no_floats v) else PStr [])"
    by (rule bspec) simp
  then have ta: "map_of r ''tagline'' = Some (PStr ''Hi'')" by simp
  from r sk pr ct ro bi ta show ?thesis
    by (intro exI[where x = r] conjI)
qed

theorem normalise_idempotent_witness:
  "validate_and_normalise no_floats (PDict [(''skills'', PStr ''x''), (''name'', PBool True)]) []
     = Inr [(''name'', PStr ''True''), (''role'', PStr []), (''tagline'', PStr []),
            (''bio'', PStr []), (''skills'', PList []), (''projects'', PList []),
            (''experience'', PList []), (''education'', PList []), (''achievements'', PList []),
            (''contact'', PDict [])]
   \<and> validate_and_normalise no_floats
        (PDict [(''name'', PStr ''True''), (''role'', PStr []), (''tagline'', PStr []),
            (''bio'', PStr []), (''skills'', PList []), (''projects'', PList []),
            (''experience'', PList []), (''education'', PList []), (''achievements'', PList []),
            (''contact'', PDict [])]) []
     = Inr [(''name'', PStr ''True''), (''role'', PStr []), (''tagline'', PStr []),
            (''bio'', PStr []), (''skills'', PList []), (''projects'', PList []),
            (''experience'', PList []), (''education'', PList []), (''achievements'', PList []),
            (''contact'', PDict [])]"
proof -
  have h: "validate_and_normalise no_floats (PDict [(''skills'', PStr ''x''), (''name'', PBool True)]) []
     = Inr [(''name'', PStr ''True''), (''role'', PStr []), (''tagline'', PStr []),
            (''bio'', PStr []), (''skills'', PList []), (''projects'', PList []),
            (''experience'', PList []), (''education'', PList []), (''achievements'', PList []),
            (''contact'', PDict [])]"
    by code_simp
  from h normalise_idempotent[OF h] show ?thesis by simp
qed

section \<open>Properties of the fallback orchestrator\<close>

lemma calls_simps [simp]:
  "calls [] = []" "calls (Call m # ev) = m # calls ev" "calls (Sleep # ev) = calls ev"
  by (simp_all add: calls_def)

lemma try_models_all_caught:
  assumes "\<forall>m \<in> set ms. \<exists>e. attempt fp post k p u m = Inl e \<and> caught e"
  shows "fst (try_models fp post k p u n le ms)
           = Inl (RuntimeError n (if ms = [] then le else Some (projl (attempt fp post k p u (last ms)))))
         \<and> calls (snd (try_models fp post k p u n le ms)) = ms"
  using assms
proof (induction ms arbitrary: le)
  case Nil
  then show ?case by simp
next
  case (Cons m ms)
  from Cons.prems obtain e where e: "attempt fp post k p u m = Inl e" "caught e" by auto
  from Cons.prems have rest: "\<forall>m \<in> set ms. \<exists>e. attempt fp post k p u m = Inl e \<and> caught e" by simp
  note ih = Cons.IH[OF rest, of "Some e"]
  show ?case
  proof (cases "is_http_or_timeout e")
    case True
    with e ih show ?thesis by (auto simp: split_beta)
  next
    case False
    with e have "is_value_or_key e" by (simp add: caught_def)
    with False e ih show ?thesis by (auto simp: split_beta)
  qed
qed

lemma try_models_last_ok:
  assumes "\<forall>m \<in> set ms. \<exists>e. attempt fp post k p u m = Inl e \<and> caught e"
    and "attempt fp post k p u m' = Inr r"
  shows "fst (try_models fp post k p u n le (ms @ [m'])) = Inr r
         \<and> calls (snd (try_models fp post k p u n le (ms @ [m']))) = ms @ [m']"
  using assms
proof (induction ms arbitrary: le)
  case Nil
  then show ?case by simp
next
  case (Cons m ms)
  from Cons.prems obtain e where e: "attempt fp post k p u m = Inl e" "caught e" by auto
  from Cons.prems have rest: "\<forall>m \<in> set ms. \<exists>e. attempt fp post k p u m = Inl e \<and> caught e" by simp
  note ih = Cons.IH[OF rest Cons.prems(2), of "Some e"]
  show ?case
  proof (cases "is_http_or_timeout e")
    case True
    with e ih show ?thesis by (auto simp: split_beta)
  next
    case False
    with e have "is_value_or_key e" by (simp add: caught_def)
    with False e ih show ?thesis by (auto simp: split_beta)
  qed
qed

lemma distinct_fallback: "distinct FALLBACK_MODELS"
  by (simp add: FALLBACK_MODELS_def)

lemma models_to_try_distinct: "distinct (models_to_try dm model)"
  using distinct_fallback by (simp add: models_to_try_def Let_def)

lemma models_to_try_nonempty: "models_to_try dm model \<noteq> []"
  by (simp add: models_to_try_def Let_def)


lemma try_models_general:
  assumes "\<forall>m \<in> set ms. \<forall>e. attempt fp post k p u m = Inl e \<longrightarrow> caught e"
  shows "(case dropWhile (\<lambda>m. isl (attempt fp post k p u m)) ms of
            [] \<Rightarrow> fst (try_models fp post k p u n le ms)
                    = Inl (RuntimeError n (if ms = [] then le
                                           else Some (projl (attempt fp post k p u (last ms)))))
          | m # _ \<Rightarrow> fst (try_models fp post k p u n le ms) = attempt fp post k p u m
                     \<and> \<not> isl (attempt fp post k p u m))
         \<and> calls (snd (try_models fp post k p u n le ms))
             = takeWhile (\<lambda>m. isl (attempt fp post k p u m)) ms
               @ take 1 (dropWhile (\<lambda>m. isl (attempt fp post k p u m)) ms)"
  using assms
proof (induction ms arbitrary: le)
  case Nil
  then show ?case by simp
next
  case (Cons m ms)
  from Cons.prems have rest: "\<forall>m \<in> set ms. \<forall>e. attempt fp post k p u m = Inl e \<longrightarrow> caught e"
    by simp
  show ?case
  proof (cases "attempt fp post k p u m")
    case (Inr r)
    then show ?thesis by simp
  next
    case (Inl e)
    with Cons.prems have c: "caught e" by simp
    note ih = Cons.IH[OF rest, of "Some e"]
    let ?P = "\<lambda>m. isl (attempt fp post k p u m)"
    let ?rest = "try_models fp post k p u n (Some e) ms"
    have P: "?P m" using Inl by simp
    have step: "fst (try_models fp post k p u n le (m # ms)) = fst ?rest
                \<and> calls (snd (try_models fp post k p u n le (m # ms))) = m # calls (snd ?rest)"
    proof (cases "is_http_or_timeout e")
      case True
      with Inl show ?thesis by (simp add: split_beta)
    next
      case False
      with c have "is_value_or_key e" by (simp add: caught_def)
      with False Inl show ?thesis by (simp add: split_beta)
    qed
    have dw: "dropWhile ?P (m # ms) = dropWhile ?P ms" using P by simp
    have tw: "takeWhile ?P (m # ms) = m # takeWhile ?P ms" using P by simp
    have calls_ok: "calls (snd (try_models fp post k p u n le (m # ms)))
             = takeWhile ?P (m # ms) @ take 1 (dropWhile ?P (m # ms))"
      unfolding dw tw using step ih by simp
    have res_ok: "(case dropWhile ?P (m # ms) of
            [] \<Rightarrow> fst (try_models fp post k p u n le (m # ms))
                    = Inl (RuntimeError n (if m # ms = [] then le
                                           else Some (projl (attempt fp post k p u (last (m # ms))))))
          | m' # _ \<Rightarrow> fst (try_models fp post k p u n le (m # ms)) = attempt fp post k p u m'
                     \<and> \<not> isl (attempt fp post k p u m'))"
    proof (cases "dropWhile ?P ms")
      case Nil
      with ih have r: "fst ?rest = Inl (RuntimeError n (if ms = [] then Some e
                                           else Some (projl (attempt fp post k p u (last ms)))))"
        by simp
      show ?thesis unfolding dw Nil using step r Inl by simp
    next
      case (Cons m' ms')
      with ih have "fst ?rest = attempt fp post k p u m' \<and> \<not> isl (attempt fp post k p u m')"
        by simp
      then show ?thesis unfolding dw Cons using step by simp
    qed
    from res_ok calls_ok show ?thesis by (rule conjI)
  qed
qed

text \<open>
  What the loop does with the failures it catches. The candidate list (preferred model,
  then the fallbacks without it) has no duplicates. When every model but the last fails
  with a failure the loop catches, then: if the last attempt succeeds, the run returns that
  model's normalised result and has called exactly the models of the list, each once and in
  order; if the last attempt fails with a caught failure too, the run raises the
  all-models-failed error carrying the number of models and that last failure, after the
  same calls.
\<close>

lemma each_model_once_when_caught:
  "distinct (models_to_try dm model)
   \<and> ((\<forall>m \<in> set (butlast (models_to_try dm model)).
          \<exists>e. attempt fp post k (PORTFOLIO_EXTRACTION_PROMPT @ text) u m = Inl e \<and> caught e)
        \<longrightarrow>
          (\<forall>r. attempt fp post k (PORTFOLIO_EXTRACTION_PROMPT @ text) u (last (models_to_try dm model)) = Inr r
             \<longrightarrow> fst (generate_portfolio_data fp post dm text k model u) = Inr r
                 \<and> calls (snd (generate_portfolio_data fp post dm text k model u)) = models_to_try dm model)
        \<and> (\<forall>raw d. call_llm post (last (models_to_try dm model)) k (PORTFOLIO_EXTRACTION_PROMPT @ text) = Inr (PStr raw)
                    \<and> fix_json_string raw = Inr (PDict d)
             \<longrightarrow> fst (generate_portfolio_data fp post dm text k model u) = validate_and_normalise fp (PDict d) u
                 \<and> isl (validate_and_normalise fp (PDict d) u) = False
                 \<and> calls (snd (generate_portfolio_data fp post dm text k model u)) = models_to_try dm model)
        \<and> (\<forall>e. attempt fp post k (PORTFOLIO_EXTRACTION_PROMPT @ text) u (last (models_to_try dm model)) = Inl e
                 \<and> caught e
             \<longrightarrow> fst (generate_portfolio_data fp post dm text k model u)
                   = Inl (RuntimeError (length (models_to_try dm model)) (Some e))
                 \<and> calls (snd (generate_portfolio_data fp post dm text k model u)) = models_to_try dm model))"
proof -
  define ms where "ms = models_to_try dm model"
  define p where "p = PORTFOLIO_EXTRACTION_PROMPT @ text"
  define run where "run = generate_portfolio_data fp post dm text k model u"
  have run: "run = try_models fp post k p u (length ms) None ms"
    by (simp add: run_def generate_portfolio_data_def Let_def ms_def p_def)
  have ne: "ms \<noteq> []" unfolding ms_def by (rule models_to_try_nonempty)
  then have split: "ms = butlast ms @ [last ms]" by simp
  have d: "distinct ms" unfolding ms_def by (rule models_to_try_distinct)
  have ok: "fst run = Inr r \<and> calls (snd run) = ms"
    if h: "\<forall>m \<in> set (butlast ms). \<exists>e. attempt fp post k p u m = Inl e \<and> caught e"
      and l: "attempt fp post k p u (last ms) = Inr r" for r
  proof -
    from try_models_last_ok[OF h l, of "length ms" None]
    show ?thesis unfolding run using split by simp
  qed
  have parsed: "fst run = validate_and_normalise fp (PDict dd) u
                \<and> isl (validate_and_normalise fp (PDict dd) u) = False \<and> calls (snd run) = ms"
    if h: "\<forall>m \<in> set (butlast ms). \<exists>e. attempt fp post k p u m = Inl e \<and> caught e"
      and c: "call_llm post (last ms) k p = Inr (PStr raw)"
      and f: "fix_json_string raw = Inr (PDict dd)" for raw dd
  proof -
    have a: "attempt fp post k p u (last ms) = validate_and_normalise fp (PDict dd) u"
      using c f by (simp add: attempt_def and_then_def parse_content_def)
    have v: "validate_and_normalise fp (PDict dd) u = Inr (projr (validate_and_normalise fp (PDict dd) u))"
      by (simp add: validate_and_normalise_def)
    from a v have a': "attempt fp post k p u (last ms) = Inr (projr (validate_and_normalise fp (PDict dd) u))"
      by simp
    have nl: "isl (validate_and_normalise fp (PDict dd) u) = False"
      by (simp add: validate_and_normalise_def)
    from ok[OF h a'] have "fst run = Inr (projr (validate_and_normalise fp (PDict dd) u))"
      and cs: "calls (snd run) = ms" by simp_all
    with v have "fst run = validate_and_normalise fp (PDict dd) u" by simp
    with nl cs show ?thesis by simp
  qed
  have bad: "fst run = Inl (RuntimeError (length ms) (Some e)) \<and> calls (snd run) = ms"
    if h: "\<forall>m \<in> set (butlast ms). \<exists>e. attempt fp post k p u m = Inl e \<and> caught e"
      and l: "attempt fp post k p u (last ms) = Inl e" and c: "caught e" for e
  proof -
    have "\<forall>m \<in> set (butlast ms @ [last ms]). \<exists>e. attempt fp post k p u m = Inl e \<and> caught e"
      using h l c by auto
    then have all: "\<forall>m \<in> set ms. \<exists>e. attempt fp post k p u m = Inl e \<and> caught e"
      using split by simp
    from try_models_all_caught[OF all, of "length ms" None] ne l
    show ?thesis unfolding run by simp
  qed
  from d ok parsed bad show ?thesis
    unfolding ms_def[symmetric] p_def[symmetric] run_def[symmetric] by blast
qed

lemma attempt_429:
  "post \<lparr>rq_model = m, rq_api_key = k, rq_prompt = p\<rparr> = Response 429 b
   \<Longrightarrow> attempt fp post k p u m = Inl (HTTPStatusError ''Rate limited (429)'')"
  by (simp add: attempt_def call_llm_def and_then_def)

lemma models_gemma:
  "models_to_try gemma None =
     [''google/gemma-3-12b-it:free'', ''google/gemma-3-4b-it:free'',
      ''meta-llama/llama-3.3-70b-instruct:free'', ''meta-llama/llama-3.2-3b-instruct:free'',
      ''mistralai/mistral-small-3.1-24b-instruct:free'', ''deepseek/deepseek-r1-0528:free'',
      ''qwen/qwen3-4b:free'']"
  by (simp add: models_to_try_def gemma_def FALLBACK_MODELS_def)

lemma loads_reply:
  \<open>json_loads ''{"choices": [{"message": {"content": "{}"}}]}''
     = Some (PDict [(''choices'', PList [PDict [(''message'', PDict [(''content'', PStr ''{}'')])]])])\<close>
  by code_simp

lemma fix_empty_object: "fix_json_string ''{}'' = Inr (PDict [])"
  by code_simp

lemma call_last:
  "call_llm last_model_post ''qwen/qwen3-4b:free'' k p = Inr (PStr ''{}'')"
  by (simp add: call_llm_def last_model_post_def loads_reply and_then_def getitem_key_def getitem_0_def)

lemma loads_empty_choices:
  \<open>json_loads ''{"choices": []}'' = Some (PDict [(''choices'', PList [])])\<close>
  by code_simp

lemma call_empty_choices: "call_llm empty_choices_post m k p = Inl IndexError"
  by (simp add: call_llm_def empty_choices_post_def loads_empty_choices and_then_def getitem_key_def getitem_0_def)


lemma each_model_once_example:
  "map (attempt no_floats last_model_post ''key'' (PORTFOLIO_EXTRACTION_PROMPT @ ''resume'') ''ada'')
       (butlast (models_to_try gemma None))
     = replicate 6 (Inl (HTTPStatusError ''Rate limited (429)''))
   \<and> call_llm last_model_post (last (models_to_try gemma None)) ''key''
        (PORTFOLIO_EXTRACTION_PROMPT @ ''resume'') = Inr (PStr ''{}'')
   \<and> fix_json_string ''{}'' = Inr (PDict [])
   \<and> fst (generate_portfolio_data no_floats last_model_post gemma ''resume'' ''key'' None ''ada'')
        = validate_and_normalise no_floats (PDict []) ''ada''
   \<and> calls (snd (generate_portfolio_data no_floats last_model_post gemma ''resume'' ''key'' None ''ada''))
        = [''google/gemma-3-12b-it:free'', ''google/gemma-3-4b-it:free'',
           ''meta-llama/llama-3.3-70b-instruct:free'', ''meta-llama/llama-3.2-3b-instruct:free'',
           ''mistralai/mistral-small-3.1-24b-instruct:free'', ''deepseek/deepseek-r1-0528:free'',
           ''qwen/qwen3-4b:free'']"
proof -
  let ?p = "PORTFOLIO_EXTRACTION_PROMPT @ ''resume''"
  let ?att = "attempt no_floats last_model_post ''key'' ?p ''ada''"
  let ?ms = "models_to_try gemma None"
  let ?run = "generate_portfolio_data no_floats last_model_post gemma ''resume'' ''key'' None ''ada''"
  have r429: "?att m = Inl (HTTPStatusError ''Rate limited (429)'')" if "m \<noteq> ''qwen/qwen3-4b:free''" for m
    by (rule attempt_429[where b = "[]"]) (simp add: last_model_post_def that)
  have a: "map ?att (butlast ?ms) = replicate 6 (Inl (HTTPStatusError ''Rate limited (429)''))"
    unfolding models_gemma by (simp add: r429 numeral_eq_Suc)
  have b: "call_llm last_model_post (last ?ms) ''key'' ?p = Inr (PStr ''{}'')"
    unfolding models_gemma by (simp add: call_last)
  have h: "\<forall>m \<in> set (butlast ?ms). \<exists>e. ?att m = Inl e \<and> caught e"
    unfolding models_gemma by (simp add: r429 caught_def)
  from each_model_once_when_caught[of gemma None no_floats last_model_post "''key''" "''resume''" "''ada''"]
  have "(\<forall>m \<in> set (butlast ?ms). \<exists>e. ?att m = Inl e \<and> caught e) \<longrightarrow>
        (\<forall>r. ?att (last ?ms) = Inr r \<longrightarrow> fst ?run = Inr r \<and> calls (snd ?run) = ?ms)
        \<and> (\<forall>raw d. call_llm last_model_post (last ?ms) ''key'' ?p = Inr (PStr raw)
                    \<and> fix_json_string raw = Inr (PDict d)
             \<longrightarrow> fst ?run = validate_and_normalise no_floats (PDict d) ''ada''
                 \<and> isl (validate_and_normalise no_floats (PDict d) ''ada'') = False
                 \<and> calls (snd ?run) = ?ms)
        \<and> (\<forall>e. ?att (last ?ms) = Inl e \<and> caught e
             \<longrightarrow> fst ?run = Inl (RuntimeError (length ?ms) (Some e)) \<and> calls (snd ?run) = ?ms)"
    by (rule conjunct2)
  with h have "\<forall>raw d. call_llm last_model_post (last ?ms) ''key'' ?p = Inr (PStr raw)
                    \<and> fix_json_string raw = Inr (PDict d)
             \<longrightarrow> fst ?run = validate_and_normalise no_floats (PDict d) ''ada''
                 \<and> isl (validate_and_normalise no_floats (PDict d) ''ada'') = False
                 \<and> calls (snd ?run) = ?ms"
    by blast
  with b fix_empty_object have c: "fst ?run = validate_and_normalise no_floats (PDict []) ''ada''"
    and d: "calls (snd ?run) = ?ms" by blast+
  from a b fix_empty_object c d[unfolded models_gemma] show ?thesis by (intro conjI)
qed

text \<open>
  In every run in which each per-model failure is of a kind the loop catches, every such
  failure is followed by the call of the next model: the models called are the failing
  prefix of the candidate list and the first model that succeeds; and the only failure the
  run raises is the all-models-failed error.
\<close>

lemma caught_failures_advance:
  assumes "\<forall>m \<in> set (models_to_try dm model).
             \<forall>e. attempt fp post k (PORTFOLIO_EXTRACTION_PROMPT @ text) u m = Inl e \<longrightarrow> caught e"
  shows "calls (snd (generate_portfolio_data fp post dm text k model u))
           = takeWhile (\<lambda>m. isl (attempt fp post k (PORTFOLIO_EXTRACTION_PROMPT @ text) u m))
               (models_to_try dm model)
             @ take 1 (dropWhile (\<lambda>m. isl (attempt fp post k (PORTFOLIO_EXTRACTION_PROMPT @ text) u m))
                         (models_to_try dm model))
         \<and> (\<forall>e. fst (generate_portfolio_data fp post dm text k model u) = Inl e
              \<longrightarrow> (\<exists>last_error. e = RuntimeError (length (models_to_try dm model)) last_error))"
proof -
  define ms where "ms = models_to_try dm model"
  define p where "p = PORTFOLIO_EXTRACTION_PROMPT @ text"
  define run where "run = generate_portfolio_data fp post dm text k model u"
  have run: "run = try_models fp post k p u (length ms) None ms"
    by (simp add: run_def generate_portfolio_data_def Let_def ms_def p_def)
  from assms have h: "\<forall>m \<in> set ms. \<forall>e. attempt fp post k p u m = Inl e \<longrightarrow> caught e"
    by (simp add: ms_def p_def)
  note g = try_models_general[OF h, of "length ms" None]
  have c: "calls (snd run) = takeWhile (\<lambda>m. isl (attempt fp post k p u m)) ms
             @ take 1 (dropWhile (\<lambda>m. isl (attempt fp post k p u m)) ms)"
    unfolding run using g by (rule conjunct2)
  have e: "\<exists>last_error. e = RuntimeError (length ms) last_error" if "fst run = Inl e" for e
  proof (cases "dropWhile (\<lambda>m. isl (attempt fp post k p u m)) ms")
    case Nil
    with g that show ?thesis unfolding run by auto
  next
    case (Cons m' ms')
    with g have "fst run = attempt fp post k p u m'" and "\<not> isl (attempt fp post k p u m')"
      unfolding run by simp_all
    with that show ?thesis by simp
  qed
  from c e show ?thesis
    unfolding ms_def[symmetric] p_def[symmetric] run_def[symmetric] by blast
qed

lemma caught_failures_example:
  "list_all (\<lambda>m. attempt no_floats always_429 ''key'' (PORTFOLIO_EXTRACTION_PROMPT @ ''resume'') ''ada'' m
                   = Inl (HTTPStatusError ''Rate limited (429)''))
            (models_to_try gemma None)
   \<and> caught (HTTPStatusError ''Rate limited (429)'')
   \<and> calls (snd (generate_portfolio_data no_floats always_429 gemma ''resume'' ''key'' None ''ada''))
        = models_to_try gemma None"
proof -
  let ?p = "PORTFOLIO_EXTRACTION_PROMPT @ ''resume''"
  let ?att = "attempt no_floats always_429 ''key'' ?p ''ada''"
  have r429: "?att m = Inl (HTTPStatusError ''Rate limited (429)'')" for m
    by (rule attempt_429[where b = "[]"]) (simp add: always_429_def)
  have c: "caught (HTTPStatusError ''Rate limited (429)'')" by (simp add: caught_def)
  have h: "\<forall>m \<in> set (models_to_try gemma None). \<forall>e. ?att m = Inl e \<longrightarrow> caught e"
    using r429 c by simp
  have a: "list_all (\<lambda>m. ?att m = Inl (HTTPStatusError ''Rate limited (429)'')) (models_to_try gemma None)"
    by (simp add: r429 list_all_iff)
  from caught_failures_advance[OF h]
  have "calls (snd (generate_portfolio_data no_floats always_429 gemma ''resume'' ''key'' None ''ada''))
        = models_to_try gemma None"
    by (simp add: r429 takeWhile_eq_all_conv[THEN iffD2] dropWhile_eq_Nil_conv[THEN iffD2])
  with a c show ?thesis by (intro conjI)
qed

text \<open>
  The failures the loop catches are the four transient ones: a 429, any other status but
  200, a timeout, and a reply that cannot be used: a body that is not JSON, a reply text
  from which no JSON can be recovered, a reply that is not an object.
\<close>

lemma fix_json_string_error:
  "fix_json_string s = Inl e \<Longrightarrow> \<exists>msg. e = ValueError msg"
  by (auto simp add: fix_json_string_def Let_def split: option.splits)

lemma transient_failures_caught:
  assumes "post \<lparr>rq_model = m, rq_api_key = k, rq_prompt = p\<rparr> = Timeout
         \<or> (\<exists>status body. post \<lparr>rq_model = m, rq_api_key = k, rq_prompt = p\<rparr> = Response status body
               \<and> status \<noteq> 200)
         \<or> (\<exists>body. post \<lparr>rq_model = m, rq_api_key = k, rq_prompt = p\<rparr> = Response 200 body
               \<and> json_loads body = None)
         \<or> (\<exists>s e. call_llm post m k p = Inr (PStr s) \<and> fix_json_string s = Inl e)
         \<or> (\<exists>s v. call_llm post m k p = Inr (PStr s) \<and> fix_json_string s = Inr v \<and> \<not> is_dict v)"
  shows "\<exists>e. attempt fp post k p u m = Inl e \<and> caught e"
proof -
  consider (t) "post \<lparr>rq_model = m, rq_api_key = k, rq_prompt = p\<rparr> = Timeout"
    | (s) status body where "post \<lparr>rq_model = m, rq_api_key = k, rq_prompt = p\<rparr> = Response status body"
        "status \<noteq> 200"
    | (b) body where "post \<lparr>rq_model = m, rq_api_key = k, rq_prompt = p\<rparr> = Response 200 body"
        "json_loads body = None"
    | (f) s e where "call_llm post m k p = Inr (PStr s)" "fix_json_string s = Inl e"
    | (n) s v where "call_llm post m k p = Inr (PStr s)" "fix_json_string s = Inr v" "\<not> is_dict v"
    using assms by blast
  then show ?thesis
  proof cases
    case t then show ?thesis by (simp add: attempt_def call_llm_def and_then_def caught_def)
  next
    case s then show ?thesis by (simp add: attempt_def call_llm_def and_then_def caught_def)
  next
    case b then show ?thesis by (simp add: attempt_def call_llm_def and_then_def caught_def)
  next
    case f
    from fix_json_string_error[OF f(2)] obtain msg where "e = ValueError msg" ..
    with f show ?thesis by (simp add: attempt_def and_then_def parse_content_def caught_def)
  next
    case n
    then show ?thesis
      by (cases v) (simp_all add: attempt_def and_then_def parse_content_def caught_def
                      validate_and_normalise_def)
  qed
qed

lemma filter_absent: "p \<notin> set xs \<Longrightarrow> filter (\<lambda>m. m \<noteq> p) xs = xs"
  by (induction xs) auto

lemma fallback_count: "distinct xs \<Longrightarrow> length xs \<le> Suc (length (filter (\<lambda>m. m \<noteq> p) xs))"
  by (induction xs) (auto simp add: filter_absent)

lemma models_to_try_length: "7 \<le> length (models_to_try dm model)"
proof -
  define preferred where
    "preferred = (case model of None \<Rightarrow> dm | Some m \<Rightarrow> if m = [] then dm else m)"
  have l: "length FALLBACK_MODELS = 7" by (simp add: FALLBACK_MODELS_def)
  from fallback_count[OF distinct_fallback, of preferred] l
  have "6 \<le> length (filter (\<lambda>m. m \<noteq> preferred) FALLBACK_MODELS)" by simp
  then show ?thesis by (simp add: models_to_try_def Let_def preferred_def)
qed

lemma first_failure_escapes:
  assumes "attempt fp post k p u (hd ms) = Inl e" and "\<not> caught e" and "ms \<noteq> []"
  shows "try_models fp post k p u n le ms = (Inl e, [Call (hd ms)])"
  using assms by (cases ms) (simp_all add: caught_def)

text \<open>
  Claim C1 asks for the all-models-failed error after exactly N calls whenever all N
  attempts fail. The code does not do this for a failure outside its two
  \<^verbatim>\<open>except\<close> clauses. With an endpoint that cannot be reached, every attempt fails
  with the connection error, the list has at least seven models, and the run raises the
  connection error itself after the first call: no second model is tried and no
  all-models-failed error is raised.
\<close>

theorem orchestrator_connection_error_escapes:
  "list_all (\<lambda>m. attempt fp unreachable_post k (PORTFOLIO_EXTRACTION_PROMPT @ text) u m
                   = Inl TransportError)
            (models_to_try dm model)
   \<and> 7 \<le> length (models_to_try dm model)
   \<and> generate_portfolio_data fp unreachable_post dm text k model u
       = (Inl TransportError, [Call (hd (models_to_try dm model))])"
proof -
  have a: "attempt fp unreachable_post k p u m = Inl TransportError" for p m
    by (simp add: attempt_def call_llm_def unreachable_post_def and_then_def)
  have "try_models fp unreachable_post k (PORTFOLIO_EXTRACTION_PROMPT @ text) u
          (length (models_to_try dm model)) None (models_to_try dm model)
        = (Inl TransportError, [Call (hd (models_to_try dm model))])"
    by (rule first_failure_escapes[OF a _ models_to_try_nonempty]) (simp add: caught_def)
  then show ?thesis
    by (simp add: a list_all_iff models_to_try_length generate_portfolio_data_def Let_def)
qed

text \<open>
  Claim C2 asks that no per-model failure surfaces individually. A reply with status 200
  and an empty list of choices makes the subscript \<^verbatim>\<open>data["choices"][0]\<close> raise
  \<^verbatim>\<open>IndexError\<close>; the loop catches \<^verbatim>\<open>KeyError\<close> from the same chain of subscripts
  but not \<^verbatim>\<open>IndexError\<close>, so the run raises it to its caller after the first call.
\<close>

theorem orchestrator_index_error_escapes:
  "generate_portfolio_data fp empty_choices_post dm text k model u
     = (Inl IndexError, [Call (hd (models_to_try dm model))])"
proof -
  have a: "attempt fp empty_choices_post k p u m = Inl IndexError" for p m
    by (simp add: attempt_def call_empty_choices and_then_def)
  have "try_models fp empty_choices_post k (PORTFOLIO_EXTRACTION_PROMPT @ text) u
          (length (models_to_try dm model)) None (models_to_try dm model)
        = (Inl IndexError, [Call (hd (models_to_try dm model))])"
    by (rule first_failure_escapes[OF a _ models_to_try_nonempty]) (simp add: caught_def)
  then show ?thesis
    by (simp add: generate_portfolio_data_def Let_def)
qed

section \<open>Properties of the end-to-end entry point\<close>

text \<open>
  A text that is white space only is a concatenation of white-space characters, each the
  bytes of one of the characters that \<^verbatim>\<open>str.strip\<close> removes.
\<close>

lemma space_seq_width:
  assumes "space_seq w"
  shows "space_width False (w @ t) = length w \<and> w \<noteq> []"
proof -
  from assms have l: "length w = 1 \<or> length w = 2 \<or> length w = 3"
    by (auto simp add: space_seq_def split: list.splits)
  then consider a where "w = [a]" | a b where "w = [a, b]" | a b c where "w = [a, b, c]"
    by (cases w; cases "tl w"; cases "tl (tl w)"; cases "tl (tl (tl w))") auto
  then show ?thesis
  proof cases
    case 1 with assms show ?thesis by (simp add: space_width_def)
  next
    case 2 with assms show ?thesis by (auto simp add: space_width_def space_seq_def)
  next
    case 3 with assms show ?thesis by (auto simp add: space_width_def space_seq_def)
  qed
qed

lemma space_len_seq:
  assumes "space_seq w"
  shows "space_len False (w @ t) = length w + space_len False t"
proof -
  from space_seq_width[OF assms, of t] obtain c cs where w: "w = c # cs"
    and n: "space_width False (w @ t) = length w" by (cases w) auto
  show ?thesis using n unfolding w by (simp add: Let_def)
qed

lemma space_len_concat:
  "list_all space_seq ws \<Longrightarrow> space_len False (concat ws) = length (concat ws)"
  by (induction ws) (simp_all add: space_len_seq)

lemma strip_blank:
  assumes "list_all space_seq ws"
  shows "strip (concat ws) = []"
  using space_len_concat[OF assms] by (simp add: strip_def lstrip_def rstrip_def)

lemma newline_space: "space_seq [CHR 0x0A]"
  by (simp add: space_seq_def)

lemma join_blank:
  assumes "\<forall>t \<in> set ts. \<exists>ws. list_all space_seq ws \<and> t = concat ws"
  shows "\<exists>ws. list_all space_seq ws \<and> join [CHR 0x0A] ts = concat ws"
  using assms
proof (induction "[CHR 0x0A]" ts rule: join.induct)
  case 1
  show ?case by (intro exI[where x = "[]"]) simp
next
  case (2 x)
  then show ?case by simp
next
  case (3 x y zs)
  from 3(2) obtain ws where ws: "list_all space_seq ws" "x = concat ws" by auto
  from 3(1) 3(2) obtain vs where vs: "list_all space_seq vs" "join [CHR 0x0A] (y # zs) = concat vs"
    by auto
  show ?case
    by (intro exI[where x = "ws @ [[CHR 0x0A]] @ vs"]) (simp add: ws vs newline_space)
qed

lemma blank_pages_blank_text:
  assumes "\<forall>t \<in> set pages. \<exists>ws. list_all space_seq ws \<and> t = concat ws"
  shows "strip (extract_text_from_pdf pages) = []"
proof -
  from assms have "\<forall>t \<in> set (filter (\<lambda>t. t \<noteq> []) pages). \<exists>ws. list_all space_seq ws \<and> t = concat ws"
    by simp
  from join_blank[OF this] obtain ws where "list_all space_seq ws"
    and "extract_text_from_pdf pages = concat ws"
    unfolding extract_text_from_pdf_def by blast
  then show ?thesis by (simp add: strip_blank)
qed

text \<open>
  Claim C10: when every page text of the PDF is empty or consists of white-space characters
  only (any of the white space of \<^verbatim>\<open>str.strip\<close>, the no-break space and the
  other Unicode spaces included), the end-to-end entry point fails with the value error
  whose message mentions a scanned image, and the run has made no model call: the
  orchestrator and the normaliser are not reached.
\<close>

theorem blank_pdf_fails_before_any_call:
  assumes "\<forall>t \<in> set pages. \<exists>ws. list_all space_seq ws \<and> t = concat ws"
  shows "process_resume fp post dm pages img k model u = (Inl (ValueError no_text_message), [])
         \<and> (\<exists>a b. no_text_message = a @ ''scanned image'' @ b)"
proof -
  have "process_resume fp post dm pages img k model u = (Inl (ValueError no_text_message), [])"
    using blank_pages_blank_text[OF assms] by (simp add: process_resume_def)
  moreover have "no_text_message =
      ''No text could be extracted from the uploaded PDF. Please ensure it is a text-based PDF (not a ''
      @ ''scanned image'' @ '').''"
    by (simp add: no_text_message_def)
  then have "\<exists>a b. no_text_message = a @ ''scanned image'' @ b" by blast
  ultimately show ?thesis by simp
qed

lemma decomposed_pages:
  "list_all (list_all space_seq) wss
   \<Longrightarrow> \<forall>t \<in> set (map concat wss). \<exists>ws. list_all space_seq ws \<and> t = concat ws"
  by (auto simp add: list_all_iff)

theorem blank_pdf_fails_before_any_call_witness:
  "list_all (list_all space_seq)
     [['' '', '' '', [CHR 0xC2, CHR 0xA0]], [], [[CHR 0x0A], [CHR 0xE3, CHR 0x80, CHR 0x80], [CHR 0x09]]]
   \<and> process_resume no_floats always_429 gemma
        (map concat [['' '', '' '', [CHR 0xC2, CHR 0xA0]], [],
                     [[CHR 0x0A], [CHR 0xE3, CHR 0x80, CHR 0x80], [CHR 0x09]]])
        None ''key'' None ''ada''
       = (Inl (ValueError no_text_message), [])"
proof -
  let ?wss = "[['' '', '' '', [CHR 0xC2, CHR 0xA0]], [], [[CHR 0x0A], [CHR 0xE3, CHR 0x80, CHR 0x80], [CHR 0x09]]]"
  have a: "list_all (list_all space_seq) ?wss"
    by code_simp
  from decomposed_pages[OF a]
  have "\<forall>t \<in> set (map concat ?wss). \<exists>ws. list_all space_seq ws \<and> t = concat ws" .
  from blank_pdf_fails_before_any_call[OF this, of no_floats always_429 gemma None "''key''" None "''ada''"] a
  show ?thesis by simp
qed

section \<open>Properties of the intent router\<close>

text \<open>
  Claim C7: for every chat message the intent classifier returns one of the three labels
  INTERVIEW, ATS and RAG; it returns RAG whenever the call fails and whenever the reply,
  trimmed and upper-cased, is not one of the three labels (a reply that is not a string
  included); otherwise it returns the trimmed, upper-cased reply.
\<close>

theorem detect_intent_labels:
  "detect_intent fp gemini user_message \<in> set [''INTERVIEW'', ''ATS'', ''RAG'']
   \<and> (\<forall>e. call_gemini gemini (intent_prompt user_message) = Inl e
          \<longrightarrow> detect_intent fp gemini user_message = ''RAG'')
   \<and> (\<forall>v. call_gemini gemini (intent_prompt user_message) = Inr v
            \<and> (\<forall>s. v = PStr s \<longrightarrow> upper fp (strip s) \<notin> set [''INTERVIEW'', ''ATS'', ''RAG''])
          \<longrightarrow> detect_intent fp gemini user_message = ''RAG'')
   \<and> (\<forall>s. call_gemini gemini (intent_prompt user_message) = Inr (PStr s)
            \<and> upper fp (strip s) \<in> set [''INTERVIEW'', ''ATS'', ''RAG'']
          \<longrightarrow> detect_intent fp gemini user_message = upper fp (strip s))"
proof (cases "call_gemini gemini (intent_prompt user_message)")
  case (Inl e)
  then show ?thesis by (simp add: detect_intent_def)
next
  case (Inr v)
  show ?thesis
  proof (cases v)
    case (PStr s)
    with Inr show ?thesis by (simp add: detect_intent_def Let_def)
  qed (use Inr in \<open>simp_all add: detect_intent_def\<close>)
qed

theorem detect_intent_labels_witness:
  "isl (call_gemini gemini_down (intent_prompt ''Hello'')) 
   \<and> detect_intent no_floats gemini_down ''Hello'' = ''RAG''
   \<and> call_gemini gemini_ats (intent_prompt ''Check my ATS score'') = Inr (PStr '' ats '')
   \<and> upper no_floats (strip '' ats '') = ''ATS''
   \<and> detect_intent no_floats gemini_ats ''Check my ATS score'' = ''ATS''"
proof -
  have a: "call_gemini gemini_down (intent_prompt ''Hello'') = Inl (HTTPStatusError (''status '' @ show_int 503))"
    by (simp add: call_gemini_def gemini_down_def)
  have l: \<open>json_loads ''{"candidates": [{"content": {"parts": [{"text": " ats "}]}}]}''
      = Some (PDict [(''candidates'', PList [PDict [(''content'',
           PDict [(''parts'', PList [PDict [(''text'', PStr '' ats '')]])])]])])\<close>
    by code_simp
  have b: "call_gemini gemini_ats (intent_prompt ''Check my ATS score'') = Inr (PStr '' ats '')"
    by (simp add: call_gemini_def gemini_ats_def l and_then_def getitem_key_def getitem_0_def)
  have c: "upper no_floats (strip '' ats '') = ''ATS''" by code_simp
  from detect_intent_labels[of no_floats gemini_down "''Hello''"] a
  have d: "detect_intent no_floats gemini_down ''Hello'' = ''RAG''" by blast
  from detect_intent_labels[of no_floats gemini_ats "''Check my ATS score''"] b c
  have e: "detect_intent no_floats gemini_ats ''Check my ATS score'' = ''ATS''" by simp
  from a b c d e show ?thesis by simp
qed

section \<open>Properties of the response normaliser\<close>

text \<open>
  Claim C4: a serialized object with one trailing comma before the closing brace should be
  recovered as the same object as its comma-free text. The comma repair replaces every
  comma that is followed by a closing brace or bracket, also inside a string value: for
  the object whose value is the two-character string comma, brace, the text with a trailing
  comma is recovered with the value shortened to the brace alone, while the comma-free
  text is recovered as written.
\<close>

theorem trailing_comma_repair_alters_string:
  \<open>fix_json_string ''{"a": ",}",}'' = Inr (PDict [(''a'', PStr ''}'')])
   \<and> fix_json_string ''{"a": ",}"}'' = Inr (PDict [(''a'', PStr '',}'')])
   \<and> json_loads ''{"a": ",}",}'' = None
   \<and> strip_trailing_commas ''{"a": ",}",}'' = ''{"a": "}"}''\<close>
  by code_simp

section \<open>Job scoring falls back when the scoring call fails\<close>

lemma map_of_dict_set:
  "map_of (dict_set d k v) k' = (if k' = k then Some v else map_of d k')"
  by (induction d k v rule: dict_set.induct) auto

lemma fallback_length: "length (fallback_jobs jobs) = min 10 (length jobs)"
  by (simp add: fallback_jobs_def min_def)

lemma fallback_nth:
  assumes "i < length (fallback_jobs jobs)"
  shows "fallback_jobs jobs ! i
           = dict_set (dict_set (jobs ! i) ''match_score'' (PInt (80 - int i * 2)))
               ''match_reason'' (PStr ''Based on keyword matching with your resume skills.'')"
proof -
  from assms have i: "i < length (take 10 jobs)" by (simp add: fallback_jobs_def)
  then show ?thesis
    by (simp add: fallback_jobs_def nth_enumerate_eq)
qed

lemma fallback_entry:
  assumes "i < length (fallback_jobs jobs)"
  shows "map_of (fallback_jobs jobs ! i) ''match_score'' = Some (PInt (80 - 2 * int i))"
    and "map_of (fallback_jobs jobs ! i) ''match_reason''
           = Some (PStr ''Based on keyword matching with your resume skills.'')"
    and "k \<noteq> ''match_score'' \<Longrightarrow> k \<noteq> ''match_reason''
           \<Longrightarrow> map_of (fallback_jobs jobs ! i) k = map_of (jobs ! i) k"
  by (simp_all add: fallback_nth[OF assms] map_of_dict_set)

lemma scoring_body_failures:
  assumes "outcome = Timeout \<or> outcome = NetworkError
         \<or> (\<exists>status body. outcome = Response status body \<and> status \<noteq> 200)
         \<or> (\<exists>body. outcome = Response 200 body \<and> json_loads body = None)
         \<or> (\<exists>body data c. outcome = Response 200 body \<and> json_loads body = Some data
               \<and> reply_content data = Inr (PStr c)
               \<and> json_loads (strip (remove_all ''```'' (remove_all ''```json'' c))) = None)
         \<or> (\<exists>e. scoring_body fp jobs_to_score outcome = Inl e)"
  shows "scoring_body fp jobs_to_score outcome \<noteq> Inr (Some scored)"
  using assms by (auto simp add: scoring_body_def and_then_def Let_def)

lemma fallback_taken:
  assumes "jobs \<noteq> []" and "scoring_prompt_check fp (take 15 jobs) p = None"
    and "\<And>scored. scoring_body fp (take 15 jobs) outcome \<noteq> Inr (Some scored)"
  shows "score_and_filter_jobs fp jobs p outcome = (Inr (fallback_jobs jobs), [ScoringCall])"
  using assms by (simp add: score_and_filter_jobs_def split: sum.splits option.splits)

text \<open>
  When the scoring request is issued (the prompt builds) for a non-empty list of fetched
  jobs and the call fails, by a timeout or a network error, by a status other than 200, by
  a reply body or a reply text that is not JSON, or by any other exception raised inside
  the \<^verbatim>\<open>try\<close> block, the scoring step raises nothing: after its one call it returns
  the first ten jobs, or all of them when there are fewer, the one at position \<open>i\<close> with
  \<^verbatim>\<open>match_score\<close> \<open>80 - 2 * i\<close> and the generic \<^verbatim>\<open>match_reason\<close>, every other
  key as fetched. With twenty jobs these are ten records with the scores 80, 78, ..., 62.
\<close>

lemma fallback_when_request_issued:
  assumes "jobs \<noteq> []"
    and "scoring_prompt_check fp (take 15 jobs) p = None"
    and "outcome = Timeout \<or> outcome = NetworkError
         \<or> (\<exists>status body. outcome = Response status body \<and> status \<noteq> 200)
         \<or> (\<exists>body. outcome = Response 200 body \<and> json_loads body = None)
         \<or> (\<exists>body data c. outcome = Response 200 body \<and> json_loads body = Some data
               \<and> reply_content data = Inr (PStr c)
               \<and> json_loads (strip (remove_all ''```'' (remove_all ''```json'' c))) = None)
         \<or> (\<exists>e. scoring_body fp (take 15 jobs) outcome = Inl e)"
  shows "\<exists>out. score_and_filter_jobs fp jobs p outcome = (Inr out, [ScoringCall])
           \<and> length out = min 10 (length jobs)
           \<and> (\<forall>i < length out.
                 map_of (out ! i) ''match_score'' = Some (PInt (80 - 2 * int i))
               \<and> map_of (out ! i) ''match_reason''
                   = Some (PStr ''Based on keyword matching with your resume skills.'')
               \<and> (\<forall>k. k \<noteq> ''match_score'' \<and> k \<noteq> ''match_reason''
                      \<longrightarrow> map_of (out ! i) k = map_of (jobs ! i) k))"
proof -
  have r: "score_and_filter_jobs fp jobs p outcome = (Inr (fallback_jobs jobs), [ScoringCall])"
    by (rule fallback_taken[OF assms(1,2)]) (rule scoring_body_failures[OF assms(3)])
  have e: "\<forall>i < length (fallback_jobs jobs).
                 map_of (fallback_jobs jobs ! i) ''match_score'' = Some (PInt (80 - 2 * int i))
               \<and> map_of (fallback_jobs jobs ! i) ''match_reason''
                   = Some (PStr ''Based on keyword matching with your resume skills.'')
               \<and> (\<forall>k. k \<noteq> ''match_score'' \<and> k \<noteq> ''match_reason''
                      \<longrightarrow> map_of (fallback_jobs jobs ! i) k = map_of (jobs ! i) k)"
    using fallback_entry by blast
  from r fallback_length e show ?thesis
    by (intro exI[where x = "fallback_jobs jobs"] conjI)
qed

lemma prose_body:
  \<open>json_loads ''{"choices": [{"message": {"content": "I cannot score these."}}]}''
     = Some (PDict [(''choices'', PList [PDict [(''message'',
                      PDict [(''content'', PStr ''I cannot score these.'')])]])])\<close>
  by code_simp

lemma prose_content:
  "reply_content (PDict [(''choices'', PList [PDict [(''message'',
                      PDict [(''content'', PStr ''I cannot score these.'')])]])])
     = Inr (PStr ''I cannot score these.'')"
  by (simp add: reply_content_def and_then_def getitem_key_def getitem_0_def)

lemma prose_scores:
  "json_loads (strip (remove_all ''```'' (remove_all ''```json'' ''I cannot score these.''))) = None"
  by code_simp

lemma listings20_check: "scoring_prompt_check no_floats (take 15 listings20) ada = None"
  by code_simp

lemma listings20_length: "length listings20 = 20"
  by (simp add: listings20_def)

lemma fallback_of_twenty_listings:
  "listings20 \<noteq> [] \<and> length listings20 = 20
   \<and> scoring_prompt_check no_floats (take 15 listings20) ada = None
   \<and> json_loads (strip (remove_all ''```'' (remove_all ''```json'' ''I cannot score these.''))) = None
   \<and> (\<exists>out. score_and_filter_jobs no_floats listings20 ada prose_reply = (Inr out, [ScoringCall])
          \<and> map (\<lambda>j. map_of j ''match_score'') out
              = map (\<lambda>n. Some (PInt n)) [80, 78, 76, 74, 72, 70, 68, 66, 64, 62])"
proof -
  have ne: "listings20 \<noteq> []" using listings20_length by auto
  have f: "prose_reply = Timeout \<or> prose_reply = NetworkError
         \<or> (\<exists>status body. prose_reply = Response status body \<and> status \<noteq> 200)
         \<or> (\<exists>body. prose_reply = Response 200 body \<and> json_loads body = None)
         \<or> (\<exists>body data c. prose_reply = Response 200 body \<and> json_loads body = Some data
               \<and> reply_content data = Inr (PStr c)
               \<and> json_loads (strip (remove_all ''```'' (remove_all ''```json'' c))) = None)
         \<or> (\<exists>e. scoring_body no_floats (take 15 listings20) prose_reply = Inl e)"
    using prose_body prose_content prose_scores unfolding prose_reply_def by blast
  from fallback_when_request_issued[OF ne listings20_check f]
  obtain out where r: "score_and_filter_jobs no_floats listings20 ada prose_reply = (Inr out, [ScoringCall])"
    and l: "length out = min 10 (length listings20)"
    and s: "\<forall>i < length out. map_of (out ! i) ''match_score'' = Some (PInt (80 - 2 * int i))"
    by blast
  from l have l10: "length out = 10" by (simp add: listings20_length)
  have "map (\<lambda>j. map_of j ''match_score'') out = map (\<lambda>i. Some (PInt (80 - 2 * int i))) [0..<10]"
    using s l10 by (intro nth_equalityI) simp_all
  also have "\<dots> = map (\<lambda>n. Some (PInt n)) [80, 78, 76, 74, 72, 70, 68, 66, 64, 62]"
    by (simp add: upt_rec numeral_eq_Suc)
  finally have m: "map (\<lambda>j. map_of j ''match_score'') out
              = map (\<lambda>n. Some (PInt n)) [80, 78, 76, 74, 72, 70, 68, 66, 64, 62]" .
  from r m have "\<exists>out. score_and_filter_jobs no_floats listings20 ada prose_reply = (Inr out, [ScoringCall])
          \<and> map (\<lambda>j. map_of j ''match_score'') out
              = map (\<lambda>n. Some (PInt n)) [80, 78, 76, 74, 72, 70, 68, 66, 64, 62]"
    by (intro exI[where x = out] conjI)
  with ne listings20_length listings20_check prose_scores show ?thesis by (intro conjI)
qed

lemma null_description_body:
  \<open>json_loads ''{"results": [{"id": 7, "title": "Engineer", "description": null}]}''
     = Some (PDict [(''results'', PList [PDict [(''id'', PInt 7), (''title'', PStr ''Engineer''),
                                                (''description'', PNone)]])])\<close>
  by code_simp

lemma null_description_fetch:
  "fetch_adzuna_jobs fp ''id'' ''key'' null_description (PList [PStr ''python'']) no_filter ''us''
     = (Inr [[(''id'', PInt 7), (''title'', PStr ''Engineer''), (''company'', PStr ''Unknown''),
              (''location'', PStr ''Unknown''), (''salary_min'', PNone), (''salary_max'', PNone),
              (''description'', PNone), (''url'', PNone)]],
        [AdzunaCall \<lparr>q_country = ''us'', q_what = ''python'', q_where = None, q_salary_min = None\<rparr>])"
  by (simp add: fetch_adzuna_jobs_def search_query_def join_top_skills_def no_filter_def
        and_then_def null_description_def null_description_body py_iter_def parse_job_def
        display_name_def dict_get_def Let_def)

text \<open>
  Claim C6 asks that the scoring step never raises to its caller for a non-empty list of
  fetched jobs. The prompt is built before the \<^verbatim>\<open>try\<close> block, and building it
  subscripts each description. A listing that the listings endpoint returns with a null
  description is fetched as a job whose description is \<^verbatim>\<open>None\<close>; for this job list
  the scoring step raises \<^verbatim>\<open>TypeError\<close> whatever the scoring endpoint does, without
  calling it, and so does the whole job-search request.
\<close>

theorem scoring_raises_on_null_description:
  "fst (fetch_adzuna_jobs fp ''id'' ''key'' null_description (PList [PStr ''python'']) no_filter ''us'')
     = Inr [[(''id'', PInt 7), (''title'', PStr ''Engineer''), (''company'', PStr ''Unknown''),
             (''location'', PStr ''Unknown''), (''salary_min'', PNone), (''salary_max'', PNone),
             (''description'', PNone), (''url'', PNone)]]
   \<and> score_and_filter_jobs fp
         [[(''id'', PInt 7), (''title'', PStr ''Engineer''), (''company'', PStr ''Unknown''),
           (''location'', PStr ''Unknown''), (''salary_min'', PNone), (''salary_max'', PNone),
           (''description'', PNone), (''url'', PNone)]] ada outcome
       = (Inl TypeError, [])
   \<and> get_recommended_jobs fp ''id'' ''key'' \<lparr>adzuna = null_description, scoring = outcome\<rparr>
         [] clk ada no_filter
       = (Inl TypeError, [],
          [AdzunaCall \<lparr>q_country = ''us'', q_what = ''python'', q_where = None, q_salary_min = None\<rparr>])"
proof -
  let ?job = "[(''id'', PInt 7), (''title'', PStr ''Engineer''), (''company'', PStr ''Unknown''),
               (''location'', PStr ''Unknown''), (''salary_min'', PNone), (''salary_max'', PNone),
               (''description'', PNone), (''url'', PNone)]"
  have s: "score_and_filter_jobs fp [?job] ada outcome = (Inl TypeError, [])"
    by (simp add: score_and_filter_jobs_def scoring_prompt_check_def skills_join_check_def
          job_entry_check_def ada_def)
  have g: "get_recommended_jobs fp ''id'' ''key'' \<lparr>adzuna = null_description, scoring = outcome\<rparr>
         [] clk ada no_filter
       = (Inl TypeError, [],
          [AdzunaCall \<lparr>q_country = ''us'', q_what = ''python'', q_where = None, q_salary_min = None\<rparr>])"
    unfolding get_recommended_jobs_def Let_def
    by (simp add: cache_contains_def user_country_def ada_def null_description_fetch
          s[unfolded ada_def])
  from null_description_fetch[of fp] s g show ?thesis by simp
qed

section \<open>Job search results are served from the cache\<close>















section \<open>Code fences around a JSON text\<close>

subsection \<open>Bytes\<close>

lemma space_seq_nil: "\<not> space_seq []"
  by (simp add: space_seq_def)

lemma space_seq_single: "space_seq [c] \<Longrightarrow> (of_char c :: nat) \<le> 32"
proof -
  define n where "n = (of_char c :: nat)"
  assume "space_seq [c]"
  then have "(9 \<le> n \<and> n \<le> 13) \<or> (28 \<le> n \<and> n \<le> 32)"
    by (simp add: space_seq_def n_def)
  then have "n \<le> 32" by arith
  then show ?thesis by (simp add: n_def)
qed

lemma space_seq_cases:
  assumes "space_seq w"
  shows "(\<exists>c. w = [c] \<and> (of_char c :: nat) \<le> 32)
         \<or> ((length w = 2 \<or> length w = 3) \<and> (\<forall>c \<in> set w. 128 \<le> (of_char c :: nat)))"
proof -
  from assms have l: "length w = 1 \<or> length w = 2 \<or> length w = 3"
    by (auto simp add: space_seq_def split: list.splits)
  then consider a where "w = [a]" | a b where "w = [a, b]" | a b c where "w = [a, b, c]"
    by (cases w; cases "tl w"; cases "tl (tl w)"; cases "tl (tl (tl w))") auto
  then show ?thesis
  proof cases
    case 1 with assms space_seq_single show ?thesis by blast
  next
    case 2 with assms show ?thesis by (auto simp add: space_seq_def)
  next
    case 3 with assms show ?thesis by (auto simp add: space_seq_def)
  qed
qed

lemma space_seq_first_plain:
  assumes "space_seq w" and "w = c # r" and "(of_char c :: nat) < 128"
  shows "r = [] "
  using space_seq_cases[OF assms(1)] assms(2,3) by auto

lemma space_seq_last_plain:
  assumes "space_seq w" and "w = r @ [c]" and "(of_char c :: nat) < 128"
  shows "r = []"
  using space_seq_cases[OF assms(1)] assms(2,3) by auto

lemma plain_width: "plain c \<Longrightarrow> space_width b (c # cs) = 0"
proof -
  assume p: "plain c"
  have n1: "\<not> space_seq [c]" using p by (simp add: plain_def)
  have f: "\<not> space_seq (take k (c # cs))" for k
  proof
    assume s: "space_seq (take k (c # cs))"
    then have "k \<noteq> 0" using space_seq_nil by (cases k) auto
    then obtain k' where "k = Suc k'" by (cases k) auto
    then have "take k (c # cs) = c # take k' cs" by simp
    from space_seq_first_plain[OF s this] p have "take k (c # cs) = [c]"
      using \<open>take k (c # cs) = c # take k' cs\<close> by (simp add: plain_def)
    with s n1 show False by simp
  qed
  have g: "\<not> space_seq (rev (take k (c # cs)))" for k
  proof
    assume s: "space_seq (rev (take k (c # cs)))"
    then have "k \<noteq> 0" using space_seq_nil by (cases k) auto
    then obtain k' where "k = Suc k'" by (cases k) auto
    then have e: "rev (take k (c # cs)) = rev (take k' cs) @ [c]" by simp
    from space_seq_last_plain[OF s e] p have "rev (take k (c # cs)) = [c]"
      using e by (simp add: plain_def)
    with s n1 show False by simp
  qed
  show ?thesis
  proof (cases b)
    case True
    then show ?thesis unfolding space_width_def Let_def by (simp only: if_True if_False g)
  next
    case False
    then show ?thesis unfolding space_width_def Let_def by (simp only: if_False id_apply f)
  qed
qed

lemma json_ws_space: "json_ws c \<Longrightarrow> space_seq [c]"
  by (auto simp add: json_ws_def space_seq_def)

lemma json_ws_width: "json_ws c \<Longrightarrow> space_width b (c # cs) = 1"
  by (simp add: space_width_def json_ws_space)

lemma backtick_plain: "plain (CHR 0x60)"
  by (simp add: plain_def space_seq_def)

lemma token_char_plain:
  \<open>is_punct c \<or> word_char c \<or> c = CHR ''"'' \<Longrightarrow> plain c\<close>
  by (auto simp add: plain_def space_seq_def is_punct_def word_char_def is_lower_def is_upper_def
        is_digit_def Let_def)

subsection \<open>Scanner\<close>

lemma in_str_simps [simp]: "\<not> in_str Top" "in_str (InStr e b)" "\<not> in_str (InWord w)"
  by (simp_all add: in_str_def)

lemma top_step_chars:
  \<open>top_step c = Some (out, m') \<Longrightarrow> json_ws c \<or> is_punct c \<or> c = CHR ''"'' \<or> word_char c\<close>
  by (auto simp add: top_step_def split: if_splits)

lemma step_outside_chars:
  assumes "\<not> in_str m" and "step m c = Some (out, m')"
  shows \<open>json_ws c \<or> is_punct c \<or> c = CHR ''"'' \<or> word_char c\<close>
  using assms
  by (cases m) (auto simp add: step_def dest: top_step_chars split: if_splits option.splits)

lemma backtick_not_token:
  \<open>\<not> (json_ws (CHR 0x60) \<or> is_punct (CHR 0x60) \<or> CHR 0x60 = CHR ''"'' \<or> word_char (CHR 0x60))\<close>
  by (simp add: json_ws_def is_punct_def word_char_def is_lower_def is_upper_def is_digit_def)

lemma step_outside_backtick:
  "\<not> in_str m \<Longrightarrow> step m (CHR 0x60) = None"
proof (rule ccontr)
  assume a: "\<not> in_str m" and "step m (CHR 0x60) \<noteq> None"
  then obtain out m' where "step m (CHR 0x60) = Some (out, m')" by auto
  from step_outside_chars[OF a this] backtick_not_token show False by blast
qed

lemma step_newline:
  assumes "step m (CHR 0x0A) = Some (out, m')"
  shows "\<not> in_str m \<and> m' = Top"
  using assms
  by (cases m)
     (auto simp add: step_def top_step_def json_ws_def is_ctrl_def word_char_def is_lower_def
        is_upper_def is_digit_def split: if_splits option.splits)

lemma step_json_ws:
  assumes "json_ws c" and "step m c = Some (out, m')"
  shows "in_str m \<longleftrightarrow> in_str m'"
  using assms
  by (cases m)
     (auto simp add: step_def top_step_def json_ws_def word_char_def is_lower_def
        is_upper_def is_digit_def split: if_splits option.splits)

lemma scan_in_str_nonempty: "scan (InStr e b) s = Some raws \<Longrightarrow> s \<noteq> []"
  by (cases s) auto

lemma scan_cons:
  assumes "scan m (c # cs) = Some raws"
  obtains out m' raws' where "step m c = Some (out, m')" and "scan m' cs = Some raws'"
    and "raws = out @ raws'"
  using assms by (auto split: option.splits)

text \<open>The opening pattern finds nothing in a text that scans.\<close>

lemma open_over_scanned:
  assumes "scan m s = Some raws" and "bol \<longrightarrow> \<not> in_str m"
  shows "sub_fence_open bol (s @ t)
           = s @ sub_fence_open (if s = [] then bol else last s = CHR 0x0A) t"
  using assms
proof (induction s arbitrary: m bol raws)
  case Nil
  show ?case by simp
next
  case (Cons c cs)
  from Cons.prems(1) obtain out m' raws' where st: "step m c = Some (out, m')"
    and sc: "scan m' cs = Some raws'"
    by (rule scan_cons)
  have nf: "\<not> (bol \<and> take 3 (c # cs @ t) = ''```'')"
  proof
    assume a: "bol \<and> take 3 (c # cs @ t) = ''```''"
    then have "c = CHR 0x60" by simp
    moreover from a Cons.prems(2) have "\<not> in_str m" by simp
    ultimately show False using st step_outside_backtick by simp
  qed
  have nb: "c = CHR 0x0A \<longrightarrow> \<not> in_str m'"
  proof
    assume "c = CHR 0x0A"
    with st have "step m (CHR 0x0A) = Some (out, m')" by simp
    from step_newline[OF this] show "\<not> in_str m'" by simp
  qed
  from nf have "sub_fence_open bol ((c # cs) @ t) = c # sub_fence_open (c = CHR 0x0A) (cs @ t)"
    by auto
  also have "\<dots> = c # cs @ sub_fence_open (if cs = [] then c = CHR 0x0A else last cs = CHR 0x0A) t"
    using Cons.IH[OF sc nb] by simp
  finally show ?case by simp
qed

subsection \<open>White space inside a string literal\<close>

lemma step_safe: "str_safe c \<Longrightarrow> step (InStr e b) c = Some ([], InStr False (c # b))"
  by (auto simp add: str_safe_def step_def is_ctrl_def)

lemma str_safe_not_newline: "str_safe c \<Longrightarrow> c \<noteq> CHR 0x0A"
  by (auto simp add: str_safe_def)

lemma scan_safe_prefix:
  assumes "scan (InStr e b) s = Some raws" and "\<forall>c \<in> set (take n (s @ t)). str_safe c"
  shows "n < length s \<and> (\<exists>e' b'. scan (InStr e' b') (drop n s) = Some raws)"
  using assms
proof (induction n arbitrary: s e b)
  case 0
  from scan_in_str_nonempty[OF 0(1)] 0(1) show ?case by auto
next
  case (Suc k)
  from scan_in_str_nonempty[OF Suc.prems(1)] obtain c cs where s: "s = c # cs" by (cases s) auto
  from Suc.prems(2) have c: "str_safe c" and r: "\<forall>c \<in> set (take k (cs @ t)). str_safe c"
    unfolding s by simp_all
  from Suc.prems(1) have "scan (InStr False (c # b)) cs = Some raws"
    unfolding s by (simp add: step_safe[OF c] option.map_ident)
  from Suc.IH[OF this r] show ?case unfolding s by simp
qed

lemma width_seq:
  assumes "space_width False x = n" and "0 < n"
  shows "space_seq (take n x) \<and> n \<le> length x"
proof -
  from assms consider (1) "n = 1" "space_seq (take 1 x)"
    | (2) "n = 2" "\<not> space_seq (take 1 x)" "space_seq (take 2 x)"
    | (3) "n = 3" "\<not> space_seq (take 2 x)" "space_seq (take 3 x)"
    by (auto simp add: space_width_def split: if_splits)
  then show ?thesis
  proof cases
    case 1
    then have "x \<noteq> []" using space_seq_nil by auto
    with 1 show ?thesis by (cases x) auto
  next
    case 2
    have "2 \<le> length x"
    proof (rule ccontr)
      assume "\<not> 2 \<le> length x"
      then have "take 2 x = take 1 x" by (cases x; cases "tl x") auto
      with 2 show False by simp
    qed
    with 2 show ?thesis by simp
  next
    case 3
    have "3 \<le> length x"
    proof (rule ccontr)
      assume "\<not> 3 \<le> length x"
      then have "take 3 x = take 2 x" by (cases x; cases "tl x"; cases "tl (tl x)") auto
      with 3 show False by simp
    qed
    with 3 show ?thesis by simp
  qed
qed

lemma step_in_str_not_ctrl:
  "step (InStr e b) c = Some (out, m') \<Longrightarrow> 32 \<le> (of_char c :: nat)"
  by (auto simp add: step_def is_ctrl_def split: if_splits)

lemma space_in_string:
  assumes "scan (InStr e b) s = Some raws"
  shows "space_len False (s @ t) < length s
         \<and> CHR 0x0A \<notin> set (take (space_len False (s @ t)) (s @ t))"
  using assms
proof (induction s arbitrary: e b rule: length_induct)
  case (1 s)
  from scan_in_str_nonempty[OF 1(2)] obtain c cs where s: "s = c # cs" by (cases s) auto
  define n where "n = space_width False (s @ t)"
  show ?case
  proof (cases "n = 0")
    case True
    then show ?thesis unfolding s using n_def s by (simp add: Let_def)
  next
    case False
    then have pos: "0 < n" by simp
    from width_seq[OF n_def[symmetric] pos]
    have seq: "space_seq (take n (s @ t))" and le: "n \<le> length (s @ t)" by simp_all
    from 1(2) obtain out m' where st: "step (InStr e b) c = Some (out, m')"
      unfolding s by (auto split: option.splits)
    have safe: "\<forall>x \<in> set (take n (s @ t)). str_safe x"
    proof -
      from space_seq_cases[OF seq]
      show ?thesis
      proof
        assume "\<exists>x. take n (s @ t) = [x] \<and> (of_char x :: nat) \<le> 32"
        then obtain x where x: "take n (s @ t) = [x]" "(of_char x :: nat) \<le> 32" by blast
        from x(1) pos have "x = c" unfolding s by (cases n) auto
        with step_in_str_not_ctrl[OF st] x(2) have "(of_char x :: nat) = 32" by simp
        with x(1) show ?thesis by (simp add: str_safe_def)
      next
        assume "(length (take n (s @ t)) = 2 \<or> length (take n (s @ t)) = 3)
                \<and> (\<forall>c \<in> set (take n (s @ t)). 128 \<le> (of_char c :: nat))"
        then show ?thesis by (simp add: str_safe_def)
      qed
    qed
    from scan_safe_prefix[OF 1(2) safe]
    obtain e' b' where lt: "n < length s" and sc: "scan (InStr e' b') (drop n s) = Some raws"
      by blast
    have shorter: "length (drop n s) < length s" using pos lt by simp
    from 1(1)[rule_format, OF shorter sc]
    have ih1: "space_len False (drop n s @ t) < length (drop n s)"
      and ih2: "CHR 0x0A \<notin> set (take (space_len False (drop n s @ t)) (drop n s @ t))"
      by simp_all
    have dr: "drop (n - 1) (cs @ t) = drop n s @ t"
      using pos lt unfolding s by (cases n) auto
    have len: "space_len False (s @ t) = n + space_len False (drop n s @ t)"
      using pos n_def dr unfolding s by (simp add: Let_def)
    have tk: "take (n + space_len False (drop n s @ t)) (s @ t)
                = take n (s @ t) @ take (space_len False (drop n s @ t)) (drop n s @ t)"
    proof -
      have d: "drop n (s @ t) = drop n s @ t" using lt by simp
      show ?thesis by (simp only: take_add d)
    qed
    have nl: "CHR 0x0A \<notin> set (take n (s @ t))"
      using safe str_safe_not_newline by blast
    show ?thesis
      unfolding len tk using ih1 ih2 nl lt by auto
  qed
qed

subsection \<open>The closing pattern\<close>

lemma fence_tail_other: "take 3 s \<noteq> ''```'' \<Longrightarrow> fence_tail s = None"
  by (simp add: fence_tail_def)

lemma fence_tail_in_string:
  assumes "scan (InStr e b) s = Some raws"
  shows "fence_tail (''```'' @ s @ t) = None"
proof -
  from space_in_string[OF assms, of t]
  have l: "space_len False (s @ t) < length s"
    and n: "CHR 0x0A \<notin> set (take (space_len False (s @ t)) (s @ t))" by simp_all
  from l have "lstrip (s @ t) \<noteq> []" by (simp add: lstrip_def)
  moreover from n have "CHR 0x0A \<notin> set (space_run (s @ t))" by (simp add: space_run_def)
  ultimately show ?thesis by (simp add: fence_tail_def Let_def)
qed

lemma step_in_str_backtick:
  "step (InStr e b) (CHR 0x60) = Some ([], InStr False (CHR 0x60 # b))"
  by (simp add: step_def is_ctrl_def)

lemma scan_in_str_backtick:
  assumes "scan (InStr e b) (c # cs) = Some raws" and "c = CHR 0x60"
  shows "scan (InStr False (c # b)) cs = Some raws"
  using assms by (simp add: step_in_str_backtick option.map_ident)

lemma close_over_scanned:
  assumes "scan m s = Some raws" and "s \<noteq> [] \<and> last s = CHR 0x0A \<longrightarrow> fence_tail t = None"
  shows "sub_fence_close (s @ t) = s @ sub_fence_close t"
  using assms
proof (induction s arbitrary: m raws)
  case Nil
  show ?case by simp
next
  case (Cons c cs)
  from Cons.prems(1) obtain out m' raws' where st: "step m c = Some (out, m')"
    and sc: "scan m' cs = Some raws'"
    by (rule scan_cons)
  have nm: "close_match (c # cs @ t) = None"
  proof (cases "c = CHR 0x0A")
    case True
    with st have m': "m' = Top" using step_newline by blast
    have a: "fence_tail (cs @ t) = None"
    proof (cases cs)
      case Nil
      with Cons.prems(2) True show ?thesis by simp
    next
      case (Cons d ds)
      from sc obtain out2 m2 where "step Top d = Some (out2, m2)"
        unfolding m' Cons by (auto split: option.splits)
      then have "d \<noteq> CHR 0x60" using step_outside_backtick[of Top] by auto
      then show ?thesis unfolding Cons by (intro fence_tail_other) simp
    qed
    have b: "fence_tail (c # cs @ t) = None"
      using True by (intro fence_tail_other) simp
    from a b True show ?thesis by (simp add: close_match_def)
  next
    case False
    have "fence_tail (c # cs @ t) = None"
    proof (cases "take 3 (c # cs @ t) = ''```''")
      case nf: False
      then show ?thesis by (rule fence_tail_other)
    next
      case t3: True
      then have c: "c = CHR 0x60" by simp
      have "in_str m"
      proof (rule ccontr)
        assume "\<not> in_str m"
        from step_outside_backtick[OF this] st c show False by simp
      qed
      then obtain e b where m: "m = InStr e b" by (cases m) auto
      from Cons.prems(1) have s1: "scan (InStr False (c # b)) cs = Some raws"
        unfolding m by (rule scan_in_str_backtick[OF _ c])
      from scan_in_str_nonempty[OF s1] obtain d ds where cs: "cs = d # ds" by (cases cs) auto
      from t3 have d: "d = CHR 0x60" unfolding cs by simp
      from s1 have s2: "scan (InStr False (d # c # b)) ds = Some raws"
        unfolding cs by (rule scan_in_str_backtick[OF _ d])
      from scan_in_str_nonempty[OF s2] obtain f fs where ds: "ds = f # fs" by (cases ds) auto
      from t3 have f: "f = CHR 0x60" unfolding cs ds by simp
      from s2 have s3: "scan (InStr False (f # d # c # b)) fs = Some raws"
        unfolding ds by (rule scan_in_str_backtick[OF _ f])
      have "c # cs @ t = ''```'' @ fs @ t" by (simp add: c d f cs ds)
      with fence_tail_in_string[OF s3, of t] show ?thesis by simp
    qed
    with False show ?thesis by (simp add: close_match_def)
  qed
  have lp: "cs \<noteq> [] \<and> last cs = CHR 0x0A \<longrightarrow> fence_tail t = None"
    using Cons.prems(2) by auto
  from nm have "sub_fence_close ((c # cs) @ t) = c # sub_fence_close (cs @ t)" by simp
  also have "\<dots> = c # cs @ sub_fence_close t" using Cons.IH[OF sc lp] by simp
  finally show ?case by simp
qed

subsection \<open>Stripping a text that scans\<close>

lemma json_loads_cong: "scan Top a = scan Top b \<Longrightarrow> json_loads a = json_loads b"
  by (simp add: json_loads_def)

lemma map_append_nil: "map_option ((@) []) x = x"
  by (cases x) simp_all

lemma step_top_json_ws: "json_ws c \<Longrightarrow> step Top c = Some ([], Top)"
  by (simp add: step_def top_step_def)

lemma scan_top_json_ws: "json_ws c \<Longrightarrow> scan Top (c # cs) = scan Top cs"
  by (simp add: step_top_json_ws map_append_nil)

lemma scan_top_leading: "list_all json_ws ws \<Longrightarrow> scan Top (ws @ s) = scan Top s"
  by (induction ws) (simp_all add: scan_top_json_ws del: scan.simps)

lemma json_ws_not_word: "json_ws c \<Longrightarrow> \<not> word_char c"
  by (auto simp add: json_ws_def word_char_def is_lower_def is_upper_def is_digit_def)

lemma scan_json_ws_last: "json_ws c \<Longrightarrow> scan m [c] = scan m []"
proof (cases m)
  case Top
  assume "json_ws c"
  then show ?thesis unfolding Top by (simp add: step_top_json_ws)
next
  case (InStr e b)
  assume "json_ws c"
  then show ?thesis unfolding InStr by (auto simp add: step_def json_ws_def)
next
  case (InWord w)
  assume "json_ws c"
  then show ?thesis unfolding InWord
    by (simp add: step_def json_ws_not_word top_step_def)
qed

lemma scan_snoc_json_ws: "json_ws c \<Longrightarrow> scan m (s @ [c]) = scan m s"
proof (induction s arbitrary: m)
  case Nil
  then show ?case using scan_json_ws_last by simp
next
  case (Cons a s)
  then show ?case by (simp split: option.splits)
qed

lemma scan_trailing: "list_all json_ws ws \<Longrightarrow> scan m (s @ ws) = scan m s"
proof (induction ws arbitrary: s)
  case Nil
  show ?case by simp
next
  case (Cons c ws)
  from Cons.prems have c: "json_ws c" and ws: "list_all json_ws ws" by simp_all
  have "scan m (s @ c # ws) = scan m ((s @ [c]) @ ws)" by simp
  also have "\<dots> = scan m (s @ [c])" by (rule Cons.IH[OF ws])
  also have "\<dots> = scan m s" by (rule scan_snoc_json_ws[OF c])
  finally show ?case .
qed

lemma step_closes_string:
  \<open>step (InStr e b) c = Some (out, m') \<Longrightarrow> \<not> in_str m' \<Longrightarrow> c = CHR ''"''\<close>
  by (auto simp add: step_def split: if_splits)

lemma scan_last_char:
  assumes "scan m (s @ [c]) = Some raws" and "\<not> json_ws c"
  shows "plain c"
  using assms
proof (induction s arbitrary: m raws)
  case Nil
  from Nil(1) obtain out m' raws' where st: "step m c = Some (out, m')"
    and sc: "scan m' [] = Some raws'"
    by (auto split: option.splits)
  from sc have ns: "\<not> in_str m'" by (cases m') auto
  show ?case
  proof (cases "in_str m")
    case True
    then obtain e b where "m = InStr e b" by (cases m) auto
    with st ns have \<open>c = CHR ''"''\<close> using step_closes_string by blast
    then show ?thesis by (simp add: token_char_plain)
  next
    case False
    from step_outside_chars[OF False st] Nil(2) show ?thesis
      using token_char_plain by blast
  qed
next
  case (Cons a s)
  from Cons.prems(1) obtain out m' raws' where "scan m' (s @ [c]) = Some raws'"
    by (auto split: option.splits)
  from Cons.IH[OF this Cons.prems(2)] show ?case .
qed

lemma lstrip_scanned:
  assumes "scan Top s = Some raws"
  shows "scan Top (lstrip s) = Some raws
         \<and> (lstrip s \<noteq> [] \<longrightarrow> lstrip (s @ t) = lstrip s @ t)"
  using assms
proof (induction s)
  case Nil
  then show ?case by (simp add: lstrip_def)
next
  case (Cons c cs)
  show ?case
  proof (cases "json_ws c")
    case True
    from Cons.prems have sc: "scan Top cs = Some raws"
      unfolding scan_top_json_ws[OF True] .
    have a: "lstrip (c # x) = lstrip x" for x
      using json_ws_width[OF True, of False x] by (simp add: lstrip_def Let_def)
    from Cons.IH[OF sc] show ?thesis using a[of cs] a[of "cs @ t"] by simp
  next
    case False
    from Cons.prems obtain out m' where "step Top c = Some (out, m')"
      by (auto split: option.splits)
    from step_outside_chars[OF _ this] False have "plain c"
      using token_char_plain by auto
    then have "lstrip (c # x) = c # x" for x
      using plain_width[of c False x] by (simp add: lstrip_def Let_def)
    with Cons.prems show ?thesis by simp
  qed
qed

lemma rstrip_snoc_json_ws: "json_ws c \<Longrightarrow> rstrip (s @ [c]) = rstrip s"
  using json_ws_width[of c True "rev s"] by (simp add: rstrip_def Let_def)

lemma rstrip_snoc_plain: "plain c \<Longrightarrow> rstrip (s @ [c]) = s @ [c]"
  using plain_width[of c True "rev s"] by (simp add: rstrip_def Let_def)

lemma rstrip_scanned:
  assumes "scan m s = Some raws"
  shows "scan m (rstrip s) = Some raws"
  using assms
proof (induction s rule: rev_induct)
  case Nil
  then show ?case by (simp add: rstrip_def)
next
  case (snoc c s)
  show ?case
  proof (cases "json_ws c")
    case True
    with snoc.prems have "scan m s = Some raws" by (simp add: scan_snoc_json_ws)
    from snoc.IH[OF this] show ?thesis by (simp add: rstrip_snoc_json_ws[OF True])
  next
    case False
    from scan_last_char[OF snoc.prems False] have "plain c" .
    with snoc.prems show ?thesis by (simp add: rstrip_snoc_plain)
  qed
qed

lemma strip_scanned:
  assumes "scan Top s = Some raws"
  shows "scan Top (strip s) = Some raws"
  unfolding strip_def using lstrip_scanned[OF assms] rstrip_scanned by blast

lemma sub_fence_open_scanned:
  assumes "scan Top s = Some raws"
  shows "sub_fence_open bol s = s"
  using open_over_scanned[OF assms, of bol "[]"] by simp

lemma sub_fence_close_scanned:
  assumes "scan m s = Some raws"
  shows "sub_fence_close s = s"
  using close_over_scanned[OF assms, of "[]"] by (simp add: fence_tail_def)

text \<open>A text that scans keeps its tokens through the removal of fences.\<close>

lemma unfence_scanned:
  assumes "scan Top s = Some raws"
  shows "scan Top (unfence s) = Some raws"
proof -
  from strip_scanned[OF assms] have a: "scan Top (strip s) = Some raws" .
  have "unfence s = strip (strip s)"
    by (simp add: unfence_def sub_fence_open_scanned[OF a] sub_fence_close_scanned[OF a])
  with strip_scanned[OF a] show ?thesis by simp
qed

subsection \<open>A fenced text\<close>

lemma scan_word_first:
  assumes "scan (InWord w0) s = Some raws"
  shows "\<exists>w rest. raws = RWord (rev w0 @ w) # rest"
  using assms
proof (induction s arbitrary: w0 raws)
  case Nil
  then have "raws = RWord (rev w0 @ []) # []" by simp
  then show ?case by blast
next
  case (Cons c cs)
  show ?case
  proof (cases "word_char c")
    case True
    with Cons.prems have "scan (InWord (c # w0)) cs = Some raws"
      by (simp add: step_def map_append_nil)
    from Cons.IH[OF this] show ?thesis by auto
  next
    case False
    with Cons.prems show ?thesis
      by (auto simp add: step_def split: option.splits)
  qed
qed

lemma word_value_j: "word_value (CHR ''j'' # w) = None"
  by (simp add: word_value_def valid_number_def unsigned_def is_digit_def)

lemma json_loads_nil: "json_loads [] = None"
  by (simp add: json_loads_def)

lemma json_loads_scans:
  assumes "json_loads v = Some x"
  obtains raws where "scan Top v = Some raws"
  using assms by (cases "scan Top v") (simp_all add: json_loads_def)

lemma json_loads_first_char:
  assumes "json_loads v = Some x"
  shows "v \<noteq> [] \<and> hd v \<noteq> CHR ''j''"
proof (cases v)
  case Nil
  with assms json_loads_nil show ?thesis by simp
next
  case (Cons c cs)
  have "c \<noteq> CHR ''j''"
  proof
    assume c: "c = CHR ''j''"
    from assms obtain raws where sc: "scan Top v = Some raws" by (rule json_loads_scans)
    have "step Top (CHR ''j'') = Some ([], InWord [CHR ''j''])"
      by (simp add: step_def top_step_def json_ws_def is_punct_def word_char_def is_lower_def)
    with sc have "scan (InWord [CHR ''j'']) cs = Some raws"
      unfolding Cons c by (simp add: map_append_nil)
    from scan_word_first[OF this] obtain w rest where "raws = RWord (CHR ''j'' # w) # rest"
      by auto
    with sc have "json_loads v = None"
      by (simp add: json_loads_def classify_def word_value_j)
    with assms show False by simp
  qed
  with Cons show ?thesis by simp
qed

lemma lstrip_loaded:
  assumes "json_loads v = Some x"
  shows "lstrip v \<noteq> []"
proof
  assume e: "lstrip v = []"
  from assms obtain raws where sc: "scan Top v = Some raws" by (rule json_loads_scans)
  from lstrip_scanned[OF sc, of "[]"] have "scan Top (lstrip v) = scan Top v" using sc by simp
  then have "json_loads (lstrip v) = json_loads v" by (rule json_loads_cong)
  with assms e json_loads_nil show False by simp
qed

lemma strip_fenced: "strip (CHR 0x60 # s @ [CHR 0x60]) = CHR 0x60 # s @ [CHR 0x60]"
proof -
  have l: "lstrip (CHR 0x60 # s @ [CHR 0x60]) = CHR 0x60 # s @ [CHR 0x60]"
    using plain_width[OF backtick_plain, of False "s @ [CHR 0x60]"]
    by (simp add: lstrip_def Let_def)
  have r: "rstrip ((CHR 0x60 # s) @ [CHR 0x60]) = (CHR 0x60 # s) @ [CHR 0x60]"
    by (rule rstrip_snoc_plain[OF backtick_plain])
  show ?thesis unfolding strip_def l using r by simp
qed

lemma sub_fence_open_fence: "sub_fence_open b ''```'' = (if b then [] else ''```'')"
  by (simp add: Let_def space_run_def lstrip_def)

lemma sub_fence_close_fence: "sub_fence_close ''```'' = []"
  by (simp add: close_match_def fence_tail_def Let_def space_run_def lstrip_def)

lemma unfence_fenced:
  assumes "json_loads v = Some x" and "tag = ''json'' \<or> tag = []"
  shows "json_loads (unfence (''```'' @ tag @ v @ ''```'')) = Some x"
proof -
  from assms(1) obtain raws where sc: "scan Top v = Some raws" by (rule json_loads_scans)
  define v' where "v' = lstrip v"
  from lstrip_scanned[OF sc, of "''```''"] lstrip_loaded[OF assms(1)]
  have sc': "scan Top v' = Some raws" and ne: "v' \<noteq> []"
    and ls: "lstrip (v @ ''```'') = v' @ ''```''"
    by (simp_all add: v'_def)
  have st: "strip (''```'' @ tag @ v @ ''```'') = ''```'' @ tag @ v @ ''```''"
    using strip_fenced[of "''``'' @ tag @ v @ ''``''"] by simp
  from json_loads_first_char[OF assms(1)] obtain a r where v: "v = a # r" and a: "a \<noteq> CHR ''j''"
    by (cases v) auto
  have nj: "take 4 (v @ ''```'') \<noteq> ''json''"
    unfolding v using a by simp
  have op: "sub_fence_open True (''```'' @ tag @ v @ ''```'')
              = sub_fence_open (space_run (v @ ''```'') \<noteq> []
                                \<and> last (space_run (v @ ''```'')) = CHR 0x0A)
                  (lstrip (v @ ''```''))"
    using assms(2) nj by (auto simp add: Let_def)
  have opened: "sub_fence_open True (''```'' @ tag @ v @ ''```'')
                  = v' @ (if last v' = CHR 0x0A then [] else ''```'')"
  proof -
    have "sub_fence_open b (v' @ ''```'') = v' @ sub_fence_open (last v' = CHR 0x0A) ''```''" for b
      using open_over_scanned[OF sc', of b "''```''"] ne
      by (simp del: sub_fence_open.simps)
    then show ?thesis
      unfolding op ls by (simp only: sub_fence_open_fence)
  qed
  have closed: "sub_fence_close (v' @ (if last v' = CHR 0x0A then [] else ''```'')) = v'"
  proof (cases "last v' = CHR 0x0A")
    case True
    then show ?thesis using sub_fence_close_scanned[OF sc'] by simp
  next
    case False
    with close_over_scanned[OF sc', of "''```''"] have
      "sub_fence_close (v' @ ''```'') = v' @ sub_fence_close ''```''"
      by (simp del: sub_fence_close.simps)
    then have "sub_fence_close (v' @ ''```'') = v'"
      by (simp only: sub_fence_close_fence append_Nil2)
    with False show ?thesis by (simp only: if_False)
  qed
  have "unfence (''```'' @ tag @ v @ ''```'') = strip v'"
    unfolding unfence_def st opened closed ..
  with strip_scanned[OF sc'] sc have "scan Top (unfence (''```'' @ tag @ v @ ''```'')) = scan Top v"
    by simp
  then have "json_loads (unfence (''```'' @ tag @ v @ ''```'')) = json_loads v"
    by (rule json_loads_cong)
  with assms(1) show ?thesis by simp
qed

lemma fix_json_string_loaded:
  "json_loads (unfence s) = Some x \<Longrightarrow> fix_json_string s = Inr x"
  by (simp add: fix_json_string_def Let_def)

text \<open>
  Claim C5: a text that \<^verbatim>\<open>json.loads\<close> reads as an object, wrapped in code fences,
  the opening one tagged \<^verbatim>\<open>json\<close> or bare, with any spaces, tabs and line breaks
  between the fences and the text, gives the response normaliser the same object as the
  unwrapped text does: the object that \<^verbatim>\<open>json.loads\<close> reads.
\<close>

theorem fenced_object_recovered:
  assumes "json_loads u = Some (PDict d)"
    and "tag = ''json'' \<or> tag = []"
    and "list_all json_ws ws1" and "list_all json_ws ws2"
  shows "fix_json_string (''```'' @ tag @ ws1 @ u @ ws2 @ ''```'') = Inr (PDict d)
         \<and> fix_json_string u = Inr (PDict d)"
proof -
  from assms(1) obtain raws where sc: "scan Top u = Some raws" by (rule json_loads_scans)
  have "scan Top (ws1 @ u @ ws2) = scan Top u"
    using scan_top_leading[OF assms(3), of "u @ ws2"] scan_trailing[OF assms(4), of Top u]
    by simp
  then have "json_loads (ws1 @ u @ ws2) = json_loads u" by (rule json_loads_cong)
  with assms(1) have v: "json_loads (ws1 @ u @ ws2) = Some (PDict d)" by simp
  from unfence_fenced[OF v assms(2)]
  have a: "fix_json_string (''```'' @ tag @ ws1 @ u @ ws2 @ ''```'') = Inr (PDict d)"
    by (intro fix_json_string_loaded) simp
  from unfence_scanned[OF sc] sc have "scan Top (unfence u) = scan Top u" by simp
  then have "json_loads (unfence u) = json_loads u" by (rule json_loads_cong)
  with assms(1) have b: "fix_json_string u = Inr (PDict d)"
    by (intro fix_json_string_loaded) simp
  from a b show ?thesis by (rule conjI)
qed

lemma fenced_example_loads:
  \<open>json_loads ''{"a": "x```", "b": [1]}'' = Some (PDict [(''a'', PStr ''x```''), (''b'', PList [PInt 1])])\<close>
  by code_simp

theorem fenced_object_recovered_witness:
  \<open>json_loads ''{"a": "x```", "b": [1]}'' = Some (PDict [(''a'', PStr ''x```''), (''b'', PList [PInt 1])])
   \<and> list_all json_ws [CHR 0x0A]
   \<and> fix_json_string (''```json'' @ [CHR 0x0A] @ ''{"a": "x```", "b": [1]}'' @ [CHR 0x0A] @ ''```'')
       = Inr (PDict [(''a'', PStr ''x```''), (''b'', PList [PInt 1])])
   \<and> fix_json_string (''```'' @ [CHR 0x0A] @ ''{"a": "x```", "b": [1]}'' @ [CHR 0x0A] @ ''```'')
       = Inr (PDict [(''a'', PStr ''x```''), (''b'', PList [PInt 1])])
   \<and> fix_json_string ''{"a": "x```", "b": [1]}''
       = Inr (PDict [(''a'', PStr ''x```''), (''b'', PList [PInt 1])])\<close>
proof -
  have w: "list_all json_ws [CHR 0x0A]" by (simp add: json_ws_def)
  have t: "''json'' = ''json'' \<or> ''json'' = []" by simp
  have t': "[] = ''json'' \<or> ([] :: string) = []" by simp
  from fenced_object_recovered[OF fenced_example_loads t w w]
       fenced_object_recovered[OF fenced_example_loads t' w w]
       fenced_example_loads w
  show ?thesis by simp
qed

end
